theory Spec2Isabelle
  imports Complex_Main "HOL-Library.AList"
begin

section \<open>Data model (types.ts)\<close>

text \<open>
  The records follow \<^verbatim>\<open>types.ts\<close>. Field names that occur in more than one
  TypeScript type carry a short prefix, since record fields are global constants here.
  Timestamps are the ISO strings the code stores; counters are naturals (they start at
  zero and are only incremented or set to a length).
\<close>

record EmailRecord =
  er_file :: string
  er_message :: string

datatype phase = Idle | Running | Completed | Error

record ProcessingStatus =
  phase :: phase
  startedAt :: "string option"
  completedAt :: "string option"
  lastBatchAt :: "string option"
  queued :: nat
  processed :: nat
  results :: nat
  errors :: nat
  batches :: nat
  message :: "string option"

record PersonIndexEntry =
  pe_email :: string
  pe_name :: "string option"
  inferredRole :: "string option"
  messageCount :: nat
  pe_topics :: "string list"

record TopicIndexEntry =
  te_topic :: string
  latestSummary :: string
  confidence :: real
  isNew :: bool
  isConflicting :: bool
  lastUpdatedAt :: string

record Conflict =
  cf_topic :: string
  cf_description :: string

datatype intent = Inform | Propose | Debate

record InformationFlow =
  fl_from :: string
  fl_to :: string
  fl_topic :: string
  fl_intent :: intent

record IngestionOutput =
  io_from :: string
  io_to :: "string list"
  io_timestamp :: string
  io_body :: string

record RunAgents =
  ra_knowledge :: bool
  ra_stakeholder :: bool
  ra_memory :: bool
  ra_critic :: bool

record TriageOutput =
  runAgents :: RunAgents
  reasoning :: string

record KnowledgeOutput =
  ko_topics :: "string list"
  ko_decisions :: "string list"
  ko_facts :: "string list"

record Stakeholder =
  sh_email :: string
  sh_importance :: string
  sh_reason :: string

record StakeholderOutput =
  stakeholders :: "Stakeholder list"

datatype changeType = CT_new | CT_update | CT_conflict

record MemoryUpdate =
  mu_topic :: string
  changeType :: changeType
  mu_summary :: string

record MemoryOutput =
  updates :: "MemoryUpdate list"

record CriticConflict =
  cc_topic :: string
  cc_description :: string
  cc_severity :: string

record CriticOutput =
  co_conflicts :: "CriticConflict list"

record CoordinatorOutput =
  executiveBrief :: string
  notify :: "string list"
  priorityItems :: "string list"

datatype agent_status = S_ran | S_skipped | S_conflict

text \<open>The field \<^verbatim>\<open>output?: unknown\<close> of an agent run holds one of these payloads.\<close>

datatype agent_output =
    Out_ingestion string nat
  | Out_triage TriageOutput
  | Out_knowledge KnowledgeOutput
  | Out_stakeholder StakeholderOutput
  | Out_memory MemoryOutput
  | Out_critic CriticOutput
  | Out_coordinator CoordinatorOutput

record AgentRunInfo =
  ai_name :: string
  ai_status :: agent_status
  ai_reason :: "string option"
  ai_timestamp :: string
  ai_output :: agent_output
  ai_explanation :: string

record ReasoningTimelineItem =
  tl_timestamp :: string
  tl_label :: string
  tl_detail :: string

record AgentRunSnapshot =
  sn_batchNumber :: nat
  agents :: "AgentRunInfo list"
  sn_triageReasoning :: string
  selectedAgents :: "string list"
  skippedAgents :: "string list"
  timeline :: "ReasoningTimelineItem list"

section \<open>JavaScript helpers\<close>

text \<open>
  A JavaScript \<^verbatim>\<open>Map\<close> keeps its keys in insertion order, and \<^verbatim>\<open>set\<close> on a
  key that is present replaces the value where it stands. An association list with
  \<^const>\<open>AList.update\<close> does the same. Updating a field of the object returned by
  \<^verbatim>\<open>get\<close> mutates the stored object: it is a \<^verbatim>\<open>set\<close> of the changed object.
\<close>

type_synonym ('k, 'v) js_map = "('k \<times> 'v) list"

definition Map_get :: "('k, 'v) js_map \<Rightarrow> 'k \<Rightarrow> 'v option" where
  "Map_get m k = map_of m k"

definition Map_has :: "('k, 'v) js_map \<Rightarrow> 'k \<Rightarrow> bool" where
  "Map_has m k = (map_of m k \<noteq> None)"

definition Map_set :: "'k \<Rightarrow> 'v \<Rightarrow> ('k, 'v) js_map \<Rightarrow> ('k, 'v) js_map" where
  "Map_set k v m = AList.update k v m"

definition Map_values :: "('k, 'v) js_map \<Rightarrow> 'v list" where
  "Map_values m = map snd m"

text \<open>A thrown value: \<^verbatim>\<open>error instanceof Error ? error.message : "Unknown error"\<close>.\<close>

datatype js_error = JsError string | NonError

fun error_message :: "js_error \<Rightarrow> string" where
  "error_message (JsError m) = m"
| "error_message NonError = ''Unknown error''"

text \<open>Decimal rendering of a count inside a template string.\<close>

fun string_of_nat :: "nat \<Rightarrow> string" where
  "string_of_nat n =
     (if n < 10 then [char_of (48 + n)]
      else string_of_nat (n div 10) @ [char_of (48 + n mod 10)])"

declare string_of_nat.simps [simp del]

fun join :: "string \<Rightarrow> string list \<Rightarrow> string" where
  "join sep [] = []"
| "join sep [x] = x"
| "join sep (x # y # ys) = x @ sep @ join sep (y # ys)"

text \<open>\<^verbatim>\<open>s || "none"\<close>: the empty string is the only falsy string.\<close>

definition or_else :: "string \<Rightarrow> string \<Rightarrow> string" where
  "or_else s d = (if s = [] then d else s)"

section \<open>Configuration (processor.ts, lines 25-28)\<close>

text \<open>
  \<^verbatim>\<open>Number(process.env.X ?? "d") || d\<close>: the argument is the number the variable parses
  to, \<open>None\<close> when it is unset or not a number. A zero is falsy and gives the default.
  The settings are record counts, and the model takes them as naturals: a negative or
  fractional setting is outside the model.
\<close>

definition env_number :: "nat option \<Rightarrow> nat \<Rightarrow> nat" where
  "env_number v d = (case v of None \<Rightarrow> d | Some n \<Rightarrow> if n = 0 then d else n)"

definition RECORD_LIMIT :: "nat option \<Rightarrow> nat" where
  "RECORD_LIMIT v = env_number v 100"

definition BATCH_SIZE :: "nat option \<Rightarrow> nat" where
  "BATCH_SIZE v = env_number v 10"

section \<open>Module state (processor.ts, lines 30-54)\<close>

record state =
  status :: ProcessingStatus
  queue :: "EmailRecord list"
  knowledgeUpdates :: "MemoryUpdate list"
  informationFlow :: "InformationFlow list"
  conflicts :: "Conflict list"
  decisionLog :: "string list"
  recommendations :: "CoordinatorOutput option"
  latestAgentSnapshot :: "AgentRunSnapshot option"
  peopleIndex :: "(string, PersonIndexEntry) js_map"
  topicIndex :: "(string, TopicIndexEntry) js_map"
  batchTimer :: bool
  batchInProgress :: bool

definition initial_status :: ProcessingStatus where
  "initial_status =
     \<lparr>phase = Idle, startedAt = None, completedAt = None, lastBatchAt = None,
      queued = 0, processed = 0, results = 0, errors = 0, batches = 0, message = None\<rparr>"

text \<open>The state of a freshly loaded module.\<close>

definition initial_state :: state where
  "initial_state =
     \<lparr>status = initial_status, queue = [], knowledgeUpdates = [], informationFlow = [],
      conflicts = [], decisionLog = [], recommendations = None, latestAgentSnapshot = None,
      peopleIndex = [], topicIndex = [], batchTimer = False, batchInProgress = False\<rparr>"

text \<open>\<^verbatim>\<open>resetState\<close> leaves the timer handle and the in-progress flag alone.\<close>

definition resetState :: "state \<Rightarrow> state" where
  "resetState s =
     s\<lparr>status := initial_status, queue := [], knowledgeUpdates := [], informationFlow := [],
       conflicts := [], decisionLog := [], recommendations := None,
       latestAgentSnapshot := None, peopleIndex := [], topicIndex := []\<rparr>"

subsection \<open>Read accessors (lines 79-106)\<close>

definition getStatus :: "state \<Rightarrow> ProcessingStatus" where
  "getStatus s = status s"

text \<open>
  \<^verbatim>\<open>sort((a, b) => b.messageCount - a.messageCount)\<close> is a stable sort by descending
  count; \<^const>\<open>sort_key\<close> is stable too.
\<close>

definition getPeople :: "state \<Rightarrow> PersonIndexEntry list" where
  "getPeople s = sort_key (\<lambda>e. - int (messageCount e)) (Map_values (peopleIndex s))"

definition getTopics :: "state \<Rightarrow> TopicIndexEntry list" where
  "getTopics s = Map_values (topicIndex s)"

definition getConflicts :: "state \<Rightarrow> Conflict list" where
  "getConflicts s = conflicts s"

definition getLatestAgentRuns :: "state \<Rightarrow> AgentRunSnapshot option" where
  "getLatestAgentRuns s = latestAgentSnapshot s"

section \<open>Applying one batch's outputs (applyOutputs, lines 477-593)\<close>

text \<open>The arguments of \<^verbatim>\<open>applyOutputs\<close> and \<^verbatim>\<open>buildAgentSnapshot\<close>.\<close>

record outputs =
  ingestionOutputs :: "IngestionOutput list"
  triage :: TriageOutput
  knowledge :: KnowledgeOutput
  stakeholder :: StakeholderOutput
  memory :: MemoryOutput
  critic :: CriticOutput
  coordinator :: CoordinatorOutput

text \<open>Lines 496-510, the body of the inner loop over the participants of a message.\<close>

definition applyParticipant :: "string \<Rightarrow> state \<Rightarrow> state" where
  "applyParticipant email s =
     (if email = [] then s
      else case Map_get (peopleIndex s) email of
        None \<Rightarrow>
          s\<lparr>peopleIndex := Map_set email
              \<lparr>pe_email = email, pe_name = None, inferredRole = None,
               messageCount = 1, pe_topics = []\<rparr> (peopleIndex s)\<rparr>
      | Some existing \<Rightarrow>
          s\<lparr>peopleIndex := Map_set email
              (existing\<lparr>messageCount := messageCount existing + 1\<rparr>) (peopleIndex s)\<rparr>)"

definition participants :: "IngestionOutput \<Rightarrow> string list" where
  "participants entry = io_from entry # io_to entry"

definition applyIngestionEntry :: "IngestionOutput \<Rightarrow> state \<Rightarrow> state" where
  "applyIngestionEntry entry s = fold applyParticipant (participants entry) s"

text \<open>Lines 513-526.\<close>

definition applyStakeholderEntry :: "Stakeholder \<Rightarrow> state \<Rightarrow> state" where
  "applyStakeholderEntry stakeholderEntry s =
     (case Map_get (peopleIndex s) (sh_email stakeholderEntry) of
        None \<Rightarrow>
          s\<lparr>peopleIndex := Map_set (sh_email stakeholderEntry)
              \<lparr>pe_email = sh_email stakeholderEntry, pe_name = None,
               inferredRole = Some (sh_importance stakeholderEntry),
               messageCount = 0, pe_topics = []\<rparr> (peopleIndex s)\<rparr>
      | Some existing \<Rightarrow>
          s\<lparr>peopleIndex := Map_set (sh_email stakeholderEntry)
              (existing\<lparr>inferredRole := Some (sh_importance stakeholderEntry)\<rparr>)
              (peopleIndex s)\<rparr>)"

text \<open>
  Lines 528-539. The argument \<open>now\<close> is the clock reading \<^verbatim>\<open>new Date().toISOString()\<close>;
  one application of the outputs runs without suspension and reads one value.
\<close>

definition applyKnowledgeTopic :: "string \<Rightarrow> string \<Rightarrow> state \<Rightarrow> state" where
  "applyKnowledgeTopic now topic s =
     (if \<not> Map_has (topicIndex s) topic then
        s\<lparr>topicIndex := Map_set topic
            \<lparr>te_topic = topic, latestSummary = ''Awaiting memory classification.'',
             confidence = 0.5, isNew = True, isConflicting = False,
             lastUpdatedAt = now\<rparr> (topicIndex s)\<rparr>
      else s)"

text \<open>Lines 541-559.\<close>

definition applyMemoryUpdate :: "string \<Rightarrow> MemoryUpdate \<Rightarrow> state \<Rightarrow> state" where
  "applyMemoryUpdate now update s =
     (let isConflicting = (changeType update = CT_conflict);
          isNew = (changeType update = CT_new);
          entry = \<lparr>te_topic = mu_topic update, latestSummary = mu_summary update,
                   confidence = (if isConflicting then 0.4 else if isNew then 0.75 else 0.6),
                   isNew = isNew, isConflicting = isConflicting, lastUpdatedAt = now\<rparr>
      in s\<lparr>topicIndex := Map_set (mu_topic update) entry (topicIndex s),
            knowledgeUpdates := update # knowledgeUpdates s\<rparr>)"

text \<open>Lines 561-567.\<close>

definition applyCriticConflict :: "CriticConflict \<Rightarrow> state \<Rightarrow> state" where
  "applyCriticConflict conflict s =
     (let s' = s\<lparr>conflicts :=
                  \<lparr>cf_topic = cc_topic conflict, cf_description = cc_description conflict\<rparr>
                  # conflicts s\<rparr>
      in case Map_get (topicIndex s') (cc_topic conflict) of
           Some existingTopic \<Rightarrow>
             s'\<lparr>topicIndex := Map_set (cc_topic conflict)
                  (existingTopic\<lparr>isConflicting := True\<rparr>) (topicIndex s')\<rparr>
         | None \<Rightarrow> s')"

text \<open>Lines 575-584: one edge per recipient, the topic being \<^verbatim>\<open>knowledge.topics[0] ?? "general"\<close>.\<close>

definition first_topic :: "KnowledgeOutput \<Rightarrow> string" where
  "first_topic k = (case ko_topics k of [] \<Rightarrow> ''general'' | t # _ \<Rightarrow> t)"

definition flow_edges :: "KnowledgeOutput \<Rightarrow> IngestionOutput list \<Rightarrow> InformationFlow list" where
  "flow_edges k es =
     concat (map (\<lambda>entry. map (\<lambda>recipient.
        \<lparr>fl_from = io_from entry, fl_to = recipient, fl_topic = first_topic k,
         fl_intent = Inform\<rparr>) (io_to entry)) es)"

definition applyOutputs :: "string \<Rightarrow> outputs \<Rightarrow> state \<Rightarrow> state" where
  "applyOutputs now out s =
     (let s1 = fold applyIngestionEntry (ingestionOutputs out) s;
          s2 = fold applyStakeholderEntry (stakeholders (stakeholder out)) s1;
          s3 = fold (applyKnowledgeTopic now) (ko_topics (knowledge out)) s2;
          s4 = fold (applyMemoryUpdate now) (updates (memory out)) s3;
          s5 = fold applyCriticConflict (co_conflicts (critic out)) s4
      in s5\<lparr>decisionLog := ko_decisions (knowledge out) @ decisionLog s5,
             informationFlow :=
               flow_edges (knowledge out) (ingestionOutputs out) @ informationFlow s5,
             recommendations := Some (coordinator out)\<rparr>)"

section \<open>The run snapshot (buildAgentSnapshot, lines 340-475)\<close>

text \<open>\<^verbatim>\<open>selectedAgents.includes(name)\<close>.\<close>

definition array_includes :: "string list \<Rightarrow> string \<Rightarrow> bool" where
  "array_includes xs x = (x \<in> set xs)"

definition selected_status :: "string list \<Rightarrow> string \<Rightarrow> agent_status" where
  "selected_status sel n = (if array_includes sel n then S_ran else S_skipped)"

definition selected_reason :: "string list \<Rightarrow> string \<Rightarrow> string option" where
  "selected_reason sel n =
     Some (if array_includes sel n then ''Selected by triage'' else ''Skipped by triage'')"

definition build_timeline ::
  "string \<Rightarrow> string list \<Rightarrow> outputs \<Rightarrow> ReasoningTimelineItem list" where
  "build_timeline agentTimestamp sel out =
     [\<lparr>tl_timestamp = agentTimestamp, tl_label = ''Triage'',
       tl_detail = ''Selected agents: '' @ or_else (join '', '' sel) ''none''\<rparr>]
     @ (if length (ko_topics (knowledge out)) > 0 \<or> length (ko_decisions (knowledge out)) > 0
        then [\<lparr>tl_timestamp = agentTimestamp, tl_label = ''Knowledge'',
                tl_detail = ''Detected '' @ string_of_nat (length (ko_topics (knowledge out)))
                  @ '' topics and ''
                  @ string_of_nat (length (ko_decisions (knowledge out))) @ '' decisions''\<rparr>]
        else [])
     @ (if length (updates (memory out)) > 0
        then [\<lparr>tl_timestamp = agentTimestamp, tl_label = ''Memory'',
                tl_detail = ''Classified '' @ string_of_nat (length (updates (memory out)))
                  @ '' knowledge updates''\<rparr>]
        else [])
     @ (if length (co_conflicts (critic out)) > 0
        then [\<lparr>tl_timestamp = agentTimestamp, tl_label = ''Critic'',
                tl_detail = ''Flagged '' @ string_of_nat (length (co_conflicts (critic out)))
                  @ '' conflicts''\<rparr>]
        else [])
     @ [\<lparr>tl_timestamp = agentTimestamp, tl_label = ''Coordinator'',
         tl_detail = ''Prepared executive brief and ''
           @ string_of_nat (length (priorityItems (coordinator out)))
           @ '' priority items''\<rparr>]"

definition build_agents ::
  "nat \<Rightarrow> string \<Rightarrow> string \<Rightarrow> string list \<Rightarrow> outputs \<Rightarrow> AgentRunInfo list" where
  "build_agents batchNumber agentTimestamp triageReasoning sel out =
     [\<lparr>ai_name = ''Ingestion'', ai_status = S_ran, ai_reason = None,
       ai_timestamp = agentTimestamp,
       ai_output = Out_ingestion ''Parsed email metadata'' batchNumber,
       ai_explanation =
         ''Parsed raw emails into sender, recipients, timestamp, and clean body.''\<rparr>,
      \<lparr>ai_name = ''Triage'', ai_status = S_ran, ai_reason = Some triageReasoning,
       ai_timestamp = agentTimestamp,
       ai_output = Out_triage
         \<lparr>runAgents =
            \<lparr>ra_knowledge = array_includes sel ''knowledge'',
             ra_stakeholder = array_includes sel ''stakeholder'',
             ra_memory = array_includes sel ''memory'',
             ra_critic = array_includes sel ''critic''\<rparr>,
          reasoning = triageReasoning\<rparr>,
       ai_explanation = ''Decided which specialist agents were needed to reduce noise.''\<rparr>,
      \<lparr>ai_name = ''Knowledge'', ai_status = selected_status sel ''knowledge'',
       ai_reason = selected_reason sel ''knowledge'', ai_timestamp = agentTimestamp,
       ai_output = Out_knowledge (knowledge out),
       ai_explanation = ''Extracted topics, decisions, and factual statements.''\<rparr>,
      \<lparr>ai_name = ''Stakeholder'', ai_status = selected_status sel ''stakeholder'',
       ai_reason = selected_reason sel ''stakeholder'', ai_timestamp = agentTimestamp,
       ai_output = Out_stakeholder (stakeholder out),
       ai_explanation = ''Inferred stakeholder importance and dependencies.''\<rparr>,
      \<lparr>ai_name = ''Memory'', ai_status = selected_status sel ''memory'',
       ai_reason = selected_reason sel ''memory'', ai_timestamp = agentTimestamp,
       ai_output = Out_memory (memory out),
       ai_explanation = ''Classified new, updated, and conflicting knowledge over time.''\<rparr>,
      \<lparr>ai_name = ''Critic'',
       ai_status =
         (if array_includes sel ''critic''
          then (if length (co_conflicts (critic out)) > 0 then S_conflict else S_ran)
          else S_skipped),
       ai_reason = selected_reason sel ''critic'', ai_timestamp = agentTimestamp,
       ai_output = Out_critic (critic out),
       ai_explanation = ''Audited outputs for contradictions and overload.''\<rparr>,
      \<lparr>ai_name = ''Coordinator'', ai_status = S_ran, ai_reason = None,
       ai_timestamp = agentTimestamp, ai_output = Out_coordinator (coordinator out),
       ai_explanation =
         ''Synthesized outputs into an executive brief and priority actions.''\<rparr>]"

definition buildAgentSnapshot ::
  "nat \<Rightarrow> string \<Rightarrow> string \<Rightarrow> string list \<Rightarrow> string list \<Rightarrow> outputs \<Rightarrow> AgentRunSnapshot" where
  "buildAgentSnapshot batchNumber timestamp triageReasoning sel skipped out =
     \<lparr>sn_batchNumber = batchNumber,
      agents = build_agents batchNumber timestamp triageReasoning sel out,
      sn_triageReasoning = triageReasoning,
      selectedAgents = sel,
      skippedAgents = skipped,
      timeline = build_timeline timestamp sel out\<rparr>"

section \<open>The extraction capabilities (agent.ts)\<close>

text \<open>
  Each \<^verbatim>\<open>run...Agent\<close> sends a prompt to an external model and validates the reply
  against its schema; a transport failure and a schema violation both throw. The model
  takes the seven capabilities as functions that either throw (\<open>Inl\<close>) or return a
  validated value (\<open>Inr\<close>). Where the source passes a prompt that serialises some data,
  the function here receives that data. A fresh record of capabilities is supplied for
  every batch, so nothing is assumed about how replies vary over time.
\<close>

record MemoryContext =
  existingTopics :: "TopicIndexEntry list"
  existingDecisions :: "string list"

record capabilities =
  runIngestionAgent :: "EmailRecord \<Rightarrow> nat \<Rightarrow> nat \<Rightarrow> js_error + IngestionOutput"
  runTriageAgent :: "IngestionOutput list \<Rightarrow> nat \<Rightarrow> js_error + TriageOutput"
  runKnowledgeAgent :: "IngestionOutput list \<Rightarrow> nat \<Rightarrow> js_error + KnowledgeOutput"
  runStakeholderAgent :: "IngestionOutput list \<Rightarrow> nat \<Rightarrow> js_error + StakeholderOutput"
  runMemoryAgent :: "MemoryContext \<Rightarrow> nat \<Rightarrow> js_error + MemoryOutput"
  runCriticAgent ::
    "KnowledgeOutput \<times> StakeholderOutput \<times> MemoryOutput \<Rightarrow> nat \<Rightarrow> js_error + CriticOutput"
  runCoordinatorAgent ::
    "KnowledgeOutput \<times> StakeholderOutput \<times> MemoryOutput \<times> CriticOutput \<times> TriageOutput
       \<Rightarrow> nat \<Rightarrow> js_error + CoordinatorOutput"

section \<open>One batch through the pipeline (runBatch, lines 175-294)\<close>

text \<open>Lines 176-185: the records are parsed one after the other; the first throw ends the loop.\<close>

fun ingest_all ::
  "capabilities \<Rightarrow> nat \<Rightarrow> nat \<Rightarrow> EmailRecord list \<Rightarrow> js_error + IngestionOutput list" where
  "ingest_all cap batchNumber index [] = Inr []"
| "ingest_all cap batchNumber index (r # rs) =
     (case runIngestionAgent cap r batchNumber index of
        Inl e \<Rightarrow> Inl e
      | Inr out \<Rightarrow>
          (case ingest_all cap batchNumber (Suc index) rs of
             Inl e \<Rightarrow> Inl e
           | Inr outs \<Rightarrow> Inr (out # outs)))"

text \<open>Lines 199-204: \<^verbatim>\<open>Object.entries(selected)\<close> lists the four flags in schema order.\<close>

definition entries :: "RunAgents \<Rightarrow> (string \<times> bool) list" where
  "entries sel =
     [(''knowledge'', ra_knowledge sel), (''stakeholder'', ra_stakeholder sel),
      (''memory'', ra_memory sel), (''critic'', ra_critic sel)]"

definition selectedList :: "RunAgents \<Rightarrow> string list" where
  "selectedList sel = map fst (filter (\<lambda>(n, shouldRun). shouldRun) (entries sel))"

definition skippedList :: "RunAgents \<Rightarrow> string list" where
  "skippedList sel = map fst (filter (\<lambda>(n, shouldRun). \<not> shouldRun) (entries sel))"

text \<open>
  Lines 236-267. A stage that is not selected is not called and contributes its empty
  default. The selected stages run concurrently under \<^verbatim>\<open>Promise.all\<close>, which rejects
  as soon as one of them does; which rejection comes first depends on timing, and the
  model reports the first in launch order. The rejection only reaches the log.
\<close>

definition opt_stage :: "bool \<Rightarrow> (js_error + 'a) \<Rightarrow> 'a \<Rightarrow> js_error + 'a" where
  "opt_stage shouldRun call dflt = (if shouldRun then call else Inr dflt)"

definition empty_knowledge :: KnowledgeOutput where
  "empty_knowledge = \<lparr>ko_topics = [], ko_decisions = [], ko_facts = []\<rparr>"

definition empty_stakeholder :: StakeholderOutput where
  "empty_stakeholder = \<lparr>stakeholders = []\<rparr>"

definition empty_memory :: MemoryOutput where
  "empty_memory = \<lparr>updates = []\<rparr>"

definition empty_critic :: CriticOutput where
  "empty_critic = \<lparr>co_conflicts = []\<rparr>"

definition memoryContext :: "state \<Rightarrow> MemoryContext" where
  "memoryContext s =
     \<lparr>existingTopics = Map_values (topicIndex s), existingDecisions = take 10 (decisionLog s)\<rparr>"

definition run_pipeline ::
  "capabilities \<Rightarrow> nat \<Rightarrow> EmailRecord list \<Rightarrow> state \<Rightarrow> js_error + outputs" where
  "run_pipeline cap batchNumber batch s =
     (case ingest_all cap batchNumber 0 batch of
        Inl e \<Rightarrow> Inl e
      | Inr ing \<Rightarrow>
     (case runTriageAgent cap ing batchNumber of
        Inl e \<Rightarrow> Inl e
      | Inr tri \<Rightarrow>
     (case opt_stage (ra_knowledge (runAgents tri))
             (runKnowledgeAgent cap ing batchNumber) empty_knowledge of
        Inl e \<Rightarrow> Inl e
      | Inr kn \<Rightarrow>
     (case opt_stage (ra_stakeholder (runAgents tri))
             (runStakeholderAgent cap ing batchNumber) empty_stakeholder of
        Inl e \<Rightarrow> Inl e
      | Inr sh \<Rightarrow>
     (case opt_stage (ra_memory (runAgents tri))
             (runMemoryAgent cap (memoryContext s) batchNumber) empty_memory of
        Inl e \<Rightarrow> Inl e
      | Inr mem \<Rightarrow>
     (case opt_stage (ra_critic (runAgents tri))
             (runCriticAgent cap (kn, sh, mem) batchNumber) empty_critic of
        Inl e \<Rightarrow> Inl e
      | Inr cr \<Rightarrow>
     (case runCoordinatorAgent cap (kn, sh, mem, cr, tri) batchNumber of
        Inl e \<Rightarrow> Inl e
      | Inr co \<Rightarrow>
          Inr \<lparr>ingestionOutputs = ing, triage = tri, knowledge = kn, stakeholder = sh,
               memory = mem, critic = cr, coordinator = co\<rparr>)))))))"

section \<open>The batch runner and the scheduler (lines 108-338)\<close>

text \<open>
  \<^verbatim>\<open>runBatch\<close> is asynchronous. It runs without suspension from its entry to the first
  capability call, and again from the last capability reply (or the throw) to its end;
  between the two the module state is what the first part left, and any reader sees it.
  The local variables that live across the suspension are kept in a record.
\<close>

record in_flight =
  batchNumber :: nat
  batch :: "EmailRecord list"
  batchTimestamp :: string

definition mark_completed :: "string \<Rightarrow> state \<Rightarrow> state" where
  "mark_completed now s =
     s\<lparr>status := (status s)\<lparr>phase := Completed, completedAt := Some now\<rparr>,
       batchTimer := False\<rparr>"

text \<open>Lines 155-173. \<^verbatim>\<open>queue.splice(0, BATCH_SIZE)\<close> removes and returns the front.\<close>

definition runBatch_begin :: "nat \<Rightarrow> string \<Rightarrow> state \<Rightarrow> in_flight option \<times> state" where
  "runBatch_begin batch_size now s =
     (if batchInProgress s then (None, s)
      else if length (queue s) = 0 then (None, mark_completed now s)
      else
        let n = batches (status s) + 1;
            b = take batch_size (queue s);
            rest = drop batch_size (queue s)
        in (Some \<lparr>batchNumber = n, batch = b, batchTimestamp = now\<rparr>,
            s\<lparr>batchInProgress := True, queue := rest,
              status := (status s)\<lparr>queued := length rest, lastBatchAt := Some now\<rparr>\<rparr>))"

text \<open>Lines 175-338: the \<^verbatim>\<open>try\<close> block, \<^verbatim>\<open>catch\<close>, \<^verbatim>\<open>finally\<close> and the closing test.\<close>

definition batch_succeeded :: "string \<Rightarrow> in_flight \<Rightarrow> outputs \<Rightarrow> state \<Rightarrow> state" where
  "batch_succeeded now fl out s =
     (let s1 = applyOutputs now out s;
          s2 = s1\<lparr>latestAgentSnapshot := Some (buildAgentSnapshot (batchNumber fl)
                    (batchTimestamp fl) (reasoning (triage out))
                    (selectedList (runAgents (triage out)))
                    (skippedList (runAgents (triage out))) out)\<rparr>
      in s2\<lparr>status := (status s2)
              \<lparr>processed := processed (status s2) + length (batch fl),
               results := length (knowledgeUpdates s2),
               batches := batchNumber fl\<rparr>\<rparr>)"

definition batch_failed :: "state \<Rightarrow> state" where
  "batch_failed s = s\<lparr>status := (status s)\<lparr>errors := errors (status s) + 1\<rparr>\<rparr>"

definition runBatch_end :: "capabilities \<Rightarrow> string \<Rightarrow> in_flight \<Rightarrow> state \<Rightarrow> state" where
  "runBatch_end cap now fl s =
     (let s1 = (case run_pipeline cap (batchNumber fl) (batch fl) s of
                  Inr out \<Rightarrow> batch_succeeded now fl out s
                | Inl e \<Rightarrow> batch_failed s);
          s2 = s1\<lparr>batchInProgress := False\<rparr>
      in if length (queue s2) = 0 then mark_completed now s2 else s2)"

text \<open>A whole invocation of \<^verbatim>\<open>runBatch\<close>, from entry to return.\<close>

definition runBatch :: "nat \<Rightarrow> capabilities \<Rightarrow> string \<Rightarrow> string \<Rightarrow> state \<Rightarrow> state" where
  "runBatch batch_size cap now now' s =
     (case runBatch_begin batch_size now s of
        (None, s') \<Rightarrow> s'
      | (Some fl, s') \<Rightarrow> runBatch_end cap now' fl s')"

text \<open>Lines 138-152.\<close>

definition stopBatches :: "state \<Rightarrow> state" where
  "stopBatches s = s\<lparr>batchTimer := False\<rparr>"

definition scheduleBatches :: "state \<Rightarrow> state" where
  "scheduleBatches s = (stopBatches s)\<lparr>batchTimer := True\<rparr>"

text \<open>Lines 140-144, the timer callback; it exists only while the timer is set.\<close>

definition timer_tick :: "nat \<Rightarrow> string \<Rightarrow> state \<Rightarrow> in_flight option \<times> state" where
  "timer_tick batch_size now s =
     (if batchTimer s \<and> \<not> batchInProgress s \<and> phase (status s) = Running
      then runBatch_begin batch_size now s
      else (None, s))"

section \<open>The record reader (readFirstNRecords, lines 595-637)\<close>

text \<open>
  The reader listens to a file stream piped into a CSV parser. The source is modelled by
  the events its handlers receive, in order, while the stream is live: a parsed row, an
  error of the file stream, an error of the parser. The end of the list is the parser's
  \<^verbatim>\<open>end\<close> (or the stream's \<^verbatim>\<open>close\<close>), which resolves the promise with the rows
  collected (\<open>acc\<close>, the array \<^verbatim>\<open>results\<close>). Once \<^verbatim>\<open>results.length >= limit\<close> the handler destroys the stream, whose
  \<^verbatim>\<open>close\<close> resolves the promise; rows the parser still delivers before that find
  \<^verbatim>\<open>results.length < limit\<close> false and are dropped.
\<close>

record csv_row =
  row_file :: "string option"
  row_message :: "string option"

datatype stream_event = Data csv_row | StreamError js_error | ParserError js_error

text \<open>\<^verbatim>\<open>String(data.file ?? "")\<close>: a missing column gives the empty string.\<close>

definition to_record :: "csv_row \<Rightarrow> EmailRecord" where
  "to_record d =
     \<lparr>er_file = (case row_file d of None \<Rightarrow> [] | Some f \<Rightarrow> f),
      er_message = (case row_message d of None \<Rightarrow> [] | Some m \<Rightarrow> m)\<rparr>"

fun read_events ::
  "nat \<Rightarrow> EmailRecord list \<Rightarrow> stream_event list \<Rightarrow> js_error + EmailRecord list" where
  "read_events limit acc [] = Inr acc"
| "read_events limit acc (Data d # evs) =
     (let acc' = (if length acc < limit then acc @ [to_record d] else acc)
      in if length acc' \<ge> limit then Inr acc'
         else read_events limit acc' evs)"
| "read_events limit acc (StreamError e # evs) = Inl e"
| "read_events limit acc (ParserError e # evs) = Inl e"

definition readFirstNRecords :: "stream_event list \<Rightarrow> nat \<Rightarrow> js_error + EmailRecord list" where
  "readFirstNRecords source limit = read_events limit [] source"

section \<open>Starting a run (startProcessing, lines 108-136)\<close>

text \<open>
  \<^verbatim>\<open>startProcessing\<close> suspends once while the records are read and once while its
  first batch is in flight. The first part returns at once when a run is under way
  (\<open>Some\<close> the status), and otherwise resets the state and starts reading (\<open>None\<close>).
\<close>

definition startProcessing_begin :: "string \<Rightarrow> state \<Rightarrow> ProcessingStatus option \<times> state" where
  "startProcessing_begin now s =
     (if phase (status s) = Running then (Some (getStatus s), s)
      else
        let s1 = resetState s
        in (None, s1\<lparr>status := (status s1)\<lparr>phase := Running, startedAt := Some now\<rparr>\<rparr>))"

text \<open>Lines 120-135, from the reader's answer to the first suspension of the first batch.\<close>

definition startProcessing_loaded ::
  "nat \<Rightarrow> string \<Rightarrow> js_error + EmailRecord list \<Rightarrow> state \<Rightarrow> in_flight option \<times> state" where
  "startProcessing_loaded batch_size now answer s =
     (case answer of
        Inr records \<Rightarrow>
          let s1 = s\<lparr>queue := records\<rparr>;
              s2 = s1\<lparr>status := (status s1)\<lparr>queued := length (queue s1)\<rparr>\<rparr>
          in runBatch_begin batch_size now (scheduleBatches s2)
      | Inl error \<Rightarrow>
          (None, stopBatches
             (s\<lparr>status := (status s)\<lparr>phase := Error,
                                     message := Some (error_message error)\<rparr>\<rparr>)))"

text \<open>
  A whole call: the clock readings \<open>t0\<close>, \<open>t1\<close>, \<open>t2\<close> are those of the three parts, and
  the result is the status returned together with the state left behind.
\<close>

definition startProcessing ::
  "nat \<Rightarrow> nat \<Rightarrow> string \<Rightarrow> stream_event list \<Rightarrow> string \<Rightarrow> capabilities \<Rightarrow> string \<Rightarrow> state
     \<Rightarrow> ProcessingStatus \<times> state" where
  "startProcessing limit batch_size t0 source t1 cap t2 s =
     (case startProcessing_begin t0 s of
        (Some st, s') \<Rightarrow> (st, s')
      | (None, s1) \<Rightarrow>
          (case startProcessing_loaded batch_size t1 (readFirstNRecords source limit) s1 of
             (None, s2) \<Rightarrow> (getStatus s2, s2)
           | (Some fl, s2) \<Rightarrow>
               let s3 = runBatch_end cap t2 fl s2 in (getStatus s3, s3)))"

section \<open>A run as a sequence of events\<close>

text \<open>
  After loading, the module state changes only when the timer fires or when the batch in
  flight settles (its capabilities answer or throw). A configuration is the batch in
  flight, if any, with the module state; every configuration is an observation point.
\<close>

datatype event = Tick string | Settled capabilities string

type_synonym config = "in_flight option \<times> state"

fun step :: "nat \<Rightarrow> event \<Rightarrow> config \<Rightarrow> config" where
  "step batch_size (Tick now) (fl, s) =
     (case timer_tick batch_size now s of
        (None, s') \<Rightarrow> (fl, s')
      | (Some f, s') \<Rightarrow> (Some f, s'))"
| "step batch_size (Settled cap now) (fl, s) =
     (case fl of
        None \<Rightarrow> (None, s)
      | Some f \<Rightarrow> (None, runBatch_end cap now f s))"

definition exec :: "nat \<Rightarrow> event list \<Rightarrow> config \<Rightarrow> config" where
  "exec batch_size evs c = fold (step batch_size) evs c"

text \<open>The configuration of a run right after loading \<open>records\<close>, started in state \<open>s0\<close>.\<close>

definition run_loaded ::
  "nat \<Rightarrow> string \<Rightarrow> string \<Rightarrow> EmailRecord list \<Rightarrow> state \<Rightarrow> config" where
  "run_loaded batch_size t0 t1 records s0 =
     startProcessing_loaded batch_size t1 (Inr records) (snd (startProcessing_begin t0 s0))"

text \<open>
  Bookkeeping over a run, for stating properties: the number of records that belonged to
  batches that failed, and the parsed messages of the batches that succeeded.
\<close>

definition settles :: "event \<Rightarrow> config \<Rightarrow> (in_flight \<times> (js_error + outputs)) option" where
  "settles ev c =
     (case (ev, c) of
        (Settled cap now, (Some f, s)) \<Rightarrow>
          Some (f, run_pipeline cap (batchNumber f) (batch f) s)
      | _ \<Rightarrow> None)"

definition lost_now :: "event \<Rightarrow> config \<Rightarrow> nat" where
  "lost_now ev c = (case settles ev c of Some (f, Inl e) \<Rightarrow> length (batch f) | _ \<Rightarrow> 0)"

definition parsed_now :: "event \<Rightarrow> config \<Rightarrow> IngestionOutput list" where
  "parsed_now ev c = (case settles ev c of Some (f, Inr out) \<Rightarrow> ingestionOutputs out | _ \<Rightarrow> [])"

fun lost_records :: "nat \<Rightarrow> event list \<Rightarrow> config \<Rightarrow> nat" where
  "lost_records batch_size [] c = 0"
| "lost_records batch_size (ev # evs) c =
     lost_now ev c + lost_records batch_size evs (step batch_size ev c)"

fun parsed_messages :: "nat \<Rightarrow> event list \<Rightarrow> config \<Rightarrow> IngestionOutput list" where
  "parsed_messages batch_size [] c = []"
| "parsed_messages batch_size (ev # evs) c =
     parsed_now ev c @ parsed_messages batch_size evs (step batch_size ev c)"

definition in_flight_size :: "config \<Rightarrow> nat" where
  "in_flight_size c = (case fst c of None \<Rightarrow> 0 | Some f \<Rightarrow> length (batch f))"

section \<open>Notions used in the statements\<close>

text \<open>
  The topic entry the specification prescribes for a knowledge-change event: confidence
  0.4 for a conflict, 0.75 for a new topic, 0.6 for an update, the two flags from the
  change type, the summary of the event and the time of application.
\<close>

definition spec_topic_entry :: "string \<Rightarrow> MemoryUpdate \<Rightarrow> TopicIndexEntry" where
  "spec_topic_entry now u =
     \<lparr>te_topic = mu_topic u, latestSummary = mu_summary u,
      confidence = (case changeType u of CT_conflict \<Rightarrow> 0.4 | CT_new \<Rightarrow> 0.75 | CT_update \<Rightarrow> 0.6),
      isNew = (changeType u = CT_new), isConflicting = (changeType u = CT_conflict),
      lastUpdatedAt = now\<rparr>"

text \<open>The conflict-log entry of an audit conflict (line 562): the severity is dropped.\<close>

definition to_conflict :: "CriticConflict \<Rightarrow> Conflict" where
  "to_conflict c = \<lparr>cf_topic = cc_topic c, cf_description = cc_description c\<rparr>"

text \<open>
  Frames: everything in the state except what a step of the output application may
  write. A step that leaves a frame equal touches nothing outside its own part.
\<close>

definition beside_people where
  "beside_people s = (status s, queue s, knowledgeUpdates s, informationFlow s, conflicts s,
     decisionLog s, recommendations s, latestAgentSnapshot s, topicIndex s, batchTimer s,
     batchInProgress s)"

definition beside_topics where
  "beside_topics s = (status s, queue s, knowledgeUpdates s, informationFlow s, conflicts s,
     decisionLog s, recommendations s, latestAgentSnapshot s, peopleIndex s, batchTimer s,
     batchInProgress s)"

definition beside_memory where
  "beside_memory s = (status s, queue s, informationFlow s, conflicts s,
     decisionLog s, recommendations s, latestAgentSnapshot s, peopleIndex s, batchTimer s,
     batchInProgress s)"

definition beside_critic where
  "beside_critic s = (status s, queue s, knowledgeUpdates s, informationFlow s,
     decisionLog s, recommendations s, latestAgentSnapshot s, peopleIndex s, batchTimer s,
     batchInProgress s)"

text \<open>The two loops of \<^const>\<open>applyOutputs\<close> over the people index, and the three over the topic index.\<close>

definition people_steps :: "outputs \<Rightarrow> state \<Rightarrow> state" where
  "people_steps out s =
     fold applyStakeholderEntry (stakeholders (stakeholder out))
       (fold applyIngestionEntry (ingestionOutputs out) s)"


text \<open>
  The count stored for an identifier (zero when it has no entry), the number of times an
  identifier occurs as sender or recipient in a list of parsed messages (the code skips
  the empty identifier), and the number the specification speaks of: the messages in
  which the identifier appears as the sender or as a recipient.
\<close>

definition stored_count :: "(string, PersonIndexEntry) js_map \<Rightarrow> string \<Rightarrow> nat" where
  "stored_count idx e = (case Map_get idx e of None \<Rightarrow> 0 | Some x \<Rightarrow> messageCount x)"

definition occurrences :: "string \<Rightarrow> IngestionOutput list \<Rightarrow> nat" where
  "occurrences e ms = (if e = [] then 0 else count_list (concat (map participants ms)) e)"

definition spec_messageCount :: "string \<Rightarrow> IngestionOutput list \<Rightarrow> nat" where
  "spec_messageCount e ms = length (filter (\<lambda>m. e = io_from m \<or> e \<in> set (io_to m)) ms)"

text \<open>The entry created for a stakeholder that the people index does not know (lines 516-522).\<close>

definition new_stakeholder_entry :: "string \<Rightarrow> string \<Rightarrow> PersonIndexEntry" where
  "new_stakeholder_entry e imp =
     \<lparr>pe_email = e, pe_name = None, inferredRole = Some imp, messageCount = 0, pe_topics = []\<rparr>"

text \<open>The part of the state the scheduler works on, which the output application leaves alone.\<close>

definition sched where
  "sched s = (status s, queue s, batchTimer s, batchInProgress s)"

text \<open>The state after the \<^verbatim>\<open>try\<close> and \<^verbatim>\<open>catch\<close> blocks of a batch, before \<^verbatim>\<open>finally\<close>.\<close>

definition settle_result :: "capabilities \<Rightarrow> string \<Rightarrow> in_flight \<Rightarrow> state \<Rightarrow> state" where
  "settle_result cap now fl s =
     (case run_pipeline cap (batchNumber fl) (batch fl) s of
        Inr out \<Rightarrow> batch_succeeded now fl out s
      | Inl e \<Rightarrow> batch_failed s)"

text \<open>
  Accounting of the \<open>n\<close> records loaded, \<open>L\<close> of which belonged to failed batches:
  each record is in the queue, processed, in the batch in flight, or lost with a failed
  batch; a batch in flight holds the in-progress flag; a loss has raised the error count.
\<close>

definition accounted :: "nat \<Rightarrow> nat \<Rightarrow> config \<Rightarrow> bool" where
  "accounted n L c =
     (queued (status (snd c)) = length (queue (snd c))
      \<and> length (queue (snd c)) + processed (status (snd c)) + in_flight_size c + L = n
      \<and> (fst c \<noteq> None \<longrightarrow> batchInProgress (snd c))
      \<and> (0 < L \<longrightarrow> 0 < errors (status (snd c))))"



text \<open>A batch in flight carries the number after the last successful batch.\<close>

definition stamped :: "config \<Rightarrow> bool" where
  "stamped c =
     (case fst c of
        None \<Rightarrow> True
      | Some f \<Rightarrow> batchNumber f = batches (status (snd c)) + 1 \<and> batchInProgress (snd c))"

text \<open>
  What an observer of a configuration sees of the scheduling: the number and the records
  of the batch in flight, the queue, the phase, the counters \<open>queued\<close>, \<open>processed\<close>,
  \<open>batches\<close> and \<open>errors\<close>, the timer and the in-progress flag.
\<close>

definition progress where
  "progress c =
     (map_option (\<lambda>f. (batchNumber f, batch f)) (fst c), queue (snd c),
      phase (status (snd c)), queued (status (snd c)), processed (status (snd c)),
      batches (status (snd c)), errors (status (snd c)), batchTimer (snd c),
      batchInProgress (snd c))"


text \<open>Capabilities none of whose calls ever throws.\<close>

definition reliable :: "capabilities \<Rightarrow> bool" where
  "reliable cap =
     ((\<forall>r n i. \<not> isl (runIngestionAgent cap r n i))
      \<and> (\<forall>ing n. \<not> isl (runTriageAgent cap ing n))
      \<and> (\<forall>ing n. \<not> isl (runKnowledgeAgent cap ing n))
      \<and> (\<forall>ing n. \<not> isl (runStakeholderAgent cap ing n))
      \<and> (\<forall>ctx n. \<not> isl (runMemoryAgent cap ctx n))
      \<and> (\<forall>x n. \<not> isl (runCriticAgent cap x n))
      \<and> (\<forall>x n. \<not> isl (runCoordinatorAgent cap x n)))"

subsection \<open>Concrete inputs for the examples\<close>

definition sample_records :: "EmailRecord list" where
  "sample_records =
     [\<lparr>er_file = ''a@corp'', er_message = ''b@corp''\<rparr>,
      \<lparr>er_file = ''b@corp'', er_message = ''b@corp''\<rparr>,
      \<lparr>er_file = ''c@corp'', er_message = ''a@corp''\<rparr>]"

definition no_agents :: RunAgents where
  "no_agents = \<lparr>ra_knowledge = False, ra_stakeholder = False, ra_memory = False, ra_critic = False\<rparr>"

definition all_agents :: RunAgents where
  "all_agents = \<lparr>ra_knowledge = True, ra_stakeholder = True, ra_memory = True, ra_critic = True\<rparr>"

text \<open>
  Capabilities that always answer: the parser reads the sender from the file name and
  the one recipient from the message, the router returns the given flags.
\<close>

definition sample_parse :: "EmailRecord \<Rightarrow> IngestionOutput" where
  "sample_parse r = \<lparr>io_from = er_file r, io_to = [er_message r],
                      io_timestamp = ''10:00'', io_body = ''hello''\<rparr>"

definition sample_capabilities :: "RunAgents \<Rightarrow> capabilities" where
  "sample_capabilities sel =
     \<lparr>runIngestionAgent = (\<lambda>r n i. Inr (sample_parse r)),
      runTriageAgent = (\<lambda>ing n. Inr \<lparr>runAgents = sel, reasoning = ''routine''\<rparr>),
      runKnowledgeAgent = (\<lambda>ing n. Inr \<lparr>ko_topics = [''budget''],
                                       ko_decisions = [''approve budget''], ko_facts = []\<rparr>),
      runStakeholderAgent = (\<lambda>ing n. Inr \<lparr>stakeholders =
         [\<lparr>sh_email = ''cfo@corp'', sh_importance = ''high'', sh_reason = ''owner''\<rparr>]\<rparr>),
      runMemoryAgent = (\<lambda>ctx n. Inr \<lparr>updates =
         [\<lparr>mu_topic = ''budget'', changeType = CT_new, mu_summary = ''first draft''\<rparr>]\<rparr>),
      runCriticAgent = (\<lambda>x n. Inr \<lparr>co_conflicts =
         [\<lparr>cc_topic = ''hiring'', cc_description = ''two plans'', cc_severity = ''low''\<rparr>]\<rparr>),
      runCoordinatorAgent = (\<lambda>x n. Inr \<lparr>executiveBrief = ''brief'', notify = [],
                                           priorityItems = [''budget'']\<rparr>)\<rparr>"

text \<open>Capabilities whose router reply fails schema validation.\<close>

definition failing_capabilities :: capabilities where
  "failing_capabilities =
     (sample_capabilities all_agents)
       \<lparr>runTriageAgent := (\<lambda>ing n. Inl (JsError ''schema mismatch''))\<rparr>"

text \<open>The outputs of a batch over the sample records with every stage selected.\<close>

definition sample_outputs :: outputs where
  "sample_outputs =
     \<lparr>ingestionOutputs = map sample_parse sample_records,
      triage = \<lparr>runAgents = all_agents, reasoning = ''routine''\<rparr>,
      knowledge = \<lparr>ko_topics = [''budget''], ko_decisions = [''approve budget''], ko_facts = []\<rparr>,
      stakeholder = \<lparr>stakeholders =
         [\<lparr>sh_email = ''cfo@corp'', sh_importance = ''high'', sh_reason = ''owner''\<rparr>]\<rparr>,
      memory = \<lparr>updates =
         [\<lparr>mu_topic = ''budget'', changeType = CT_new, mu_summary = ''first draft''\<rparr>]\<rparr>,
      critic = \<lparr>co_conflicts =
         [\<lparr>cc_topic = ''hiring'', cc_description = ''two plans'', cc_severity = ''low''\<rparr>]\<rparr>,
      coordinator = \<lparr>executiveBrief = ''brief'', notify = [], priorityItems = [''budget'']\<rparr>\<rparr>"

text \<open>A run over the sample records, batch size 10, right after loading.\<close>

definition loaded_example :: config where
  "loaded_example = run_loaded 10 ''t0'' ''t1'' sample_records initial_state"


text \<open>A running state with the sample records queued and no batch begun.\<close>

definition running_example :: state where
  "running_example =
     initial_state\<lparr>status := initial_status\<lparr>phase := Running, startedAt := Some ''t0'',
                                              queued := 3\<rparr>,
                   queue := sample_records, batchTimer := True\<rparr>"

text \<open>Twenty-three records.\<close>

definition many_records :: "EmailRecord list" where
  "many_records = replicate 23 \<lparr>er_file = ''a@corp'', er_message = ''b@corp''\<rparr>"

section \<open>Lemmas on the map operations and the output application\<close>

lemma Map_get_set: "Map_get (Map_set k v m) k' = (if k' = k then Some v else Map_get m k')"
  by (simp add: Map_get_def Map_set_def update_conv')

lemma Map_keys_set:
  "map fst (Map_set k v m) = (if k \<in> set (map fst m) then map fst m else map fst m @ [k])"
  by (simp add: Map_set_def update_keys)

lemma Map_get_None_iff: "Map_get m k = None \<longleftrightarrow> k \<notin> set (map fst m)"
  by (simp add: Map_get_def map_of_eq_None_iff)

lemma Map_set_same_value: "Map_get m k = Some v \<Longrightarrow> Map_set k v m = m"
  unfolding Map_get_def Map_set_def
  by (induction m) (auto split: if_splits)

lemma Map_set_twice: "Map_set k v (Map_set k w m) = Map_set k v m"
  by (simp add: Map_set_def)

lemma applyMemoryUpdate_eq:
  "applyMemoryUpdate now u s =
     s\<lparr>topicIndex := Map_set (mu_topic u) (spec_topic_entry now u) (topicIndex s),
       knowledgeUpdates := u # knowledgeUpdates s\<rparr>"
  by (cases "changeType u") (simp_all add: applyMemoryUpdate_def spec_topic_entry_def Let_def)

lemma topicIndex_applyMemoryUpdate:
  "topicIndex (applyMemoryUpdate now u s) =
     Map_set (mu_topic u) (spec_topic_entry now u) (topicIndex s)"
  by (simp add: applyMemoryUpdate_eq)

lemma knowledgeUpdates_applyMemoryUpdate:
  "knowledgeUpdates (applyMemoryUpdate now u s) = u # knowledgeUpdates s"
  by (simp add: applyMemoryUpdate_eq)

lemma fold_memory_topicIndex:
  "Map_get (topicIndex (fold (applyMemoryUpdate now) us s)) k =
     (case find (\<lambda>u. mu_topic u = k) (rev us) of
        Some u \<Rightarrow> Some (spec_topic_entry now u)
      | None \<Rightarrow> Map_get (topicIndex s) k)"
proof (induction us arbitrary: s rule: rev_induct)
  case Nil
  show ?case by simp
next
  case (snoc u us)
  show ?case
    by (simp add: snoc.IH topicIndex_applyMemoryUpdate Map_get_set)
qed

lemma fold_memory_log:
  "knowledgeUpdates (fold (applyMemoryUpdate now) us s) = rev us @ knowledgeUpdates s"
  by (induction us arbitrary: s) (simp_all add: knowledgeUpdates_applyMemoryUpdate)

lemma fold_preserves:
  assumes "\<And>x s. p (f x s) = p s"
  shows "p (fold f xs s) = p s"
  using assms by (induction xs arbitrary: s) simp_all

lemma fold_cong_on:
  assumes step: "\<And>x s1 s2. p s1 = p s2 \<Longrightarrow> p (f x s1) = p (f x s2)"
  shows "p s1 = p s2 \<Longrightarrow> p (fold f xs s1) = p (fold f xs s2)"
proof (induction xs arbitrary: s1 s2)
  case Nil
  then show ?case by simp
next
  case (Cons x xs)
  from Cons.prems have "p (f x s1) = p (f x s2)" by (rule step)
  then have "p (fold f xs (f x s1)) = p (fold f xs (f x s2))" by (rule Cons.IH)
  then show ?case by simp
qed

lemma beside_people_applyParticipant: "beside_people (applyParticipant e s) = beside_people s"
  by (simp add: applyParticipant_def beside_people_def split: option.splits)

lemma beside_people_applyIngestionEntry:
  "beside_people (applyIngestionEntry m s) = beside_people s"
  unfolding applyIngestionEntry_def
  by (rule fold_preserves) (rule beside_people_applyParticipant)

lemma beside_people_applyStakeholderEntry:
  "beside_people (applyStakeholderEntry x s) = beside_people s"
  by (simp add: applyStakeholderEntry_def beside_people_def split: option.splits)

lemma beside_topics_applyKnowledgeTopic:
  "beside_topics (applyKnowledgeTopic now t s) = beside_topics s"
  by (simp add: applyKnowledgeTopic_def beside_topics_def)

lemma beside_memory_applyMemoryUpdate:
  "beside_memory (applyMemoryUpdate now u s) = beside_memory s"
  by (simp add: applyMemoryUpdate_eq beside_memory_def)

lemma beside_critic_applyCriticConflict:
  "beside_critic (applyCriticConflict c s) = beside_critic s"
  by (simp add: applyCriticConflict_def beside_critic_def Let_def split: option.splits)

lemma conflicts_applyCriticConflict:
  "conflicts (applyCriticConflict c s) =
     \<lparr>cf_topic = cc_topic c, cf_description = cc_description c\<rparr> # conflicts s"
  by (simp add: applyCriticConflict_def Let_def split: option.splits)

lemma topicIndex_applyCriticConflict:
  "topicIndex (applyCriticConflict c s) =
     (case Map_get (topicIndex s) (cc_topic c) of
        None \<Rightarrow> topicIndex s
      | Some e \<Rightarrow> Map_set (cc_topic c) (e\<lparr>isConflicting := True\<rparr>) (topicIndex s))"
  by (simp add: applyCriticConflict_def Let_def split: option.splits)


lemma peopleIndex_applyParticipant:
  "peopleIndex (applyParticipant e s) =
     (if e = [] then peopleIndex s
      else case Map_get (peopleIndex s) e of
        None \<Rightarrow> Map_set e \<lparr>pe_email = e, pe_name = None, inferredRole = None,
                   messageCount = 1, pe_topics = []\<rparr> (peopleIndex s)
      | Some x \<Rightarrow> Map_set e (x\<lparr>messageCount := messageCount x + 1\<rparr>) (peopleIndex s))"
  by (simp add: applyParticipant_def split: option.splits)

lemma peopleIndex_applyStakeholderEntry:
  "peopleIndex (applyStakeholderEntry x s) =
     (case Map_get (peopleIndex s) (sh_email x) of
        None \<Rightarrow> Map_set (sh_email x)
           \<lparr>pe_email = sh_email x, pe_name = None, inferredRole = Some (sh_importance x),
            messageCount = 0, pe_topics = []\<rparr> (peopleIndex s)
      | Some e \<Rightarrow> Map_set (sh_email x) (e\<lparr>inferredRole := Some (sh_importance x)\<rparr>)
           (peopleIndex s))"
  by (simp add: applyStakeholderEntry_def split: option.splits)




lemma peopleIndex_cong_stakeholder:
  "peopleIndex s1 = peopleIndex s2 \<Longrightarrow>
   peopleIndex (fold applyStakeholderEntry xs s1) = peopleIndex (fold applyStakeholderEntry xs s2)"
  by (rule fold_cong_on) (simp add: peopleIndex_applyStakeholderEntry split: option.splits)

lemma beside_people_fold_ing:
  "beside_people (fold applyIngestionEntry ms s) = beside_people s"
  by (rule fold_preserves) (rule beside_people_applyIngestionEntry)

lemma beside_people_fold_sh:
  "beside_people (fold applyStakeholderEntry xs s) = beside_people s"
  by (rule fold_preserves) (rule beside_people_applyStakeholderEntry)

lemma beside_topics_fold:
  "beside_topics (fold (applyKnowledgeTopic now) ts s) = beside_topics s"
  by (rule fold_preserves) (rule beside_topics_applyKnowledgeTopic)

lemma beside_memory_fold:
  "beside_memory (fold (applyMemoryUpdate now) us s) = beside_memory s"
  by (rule fold_preserves) (rule beside_memory_applyMemoryUpdate)

lemma beside_critic_fold:
  "beside_critic (fold applyCriticConflict cs s) = beside_critic s"
  by (rule fold_preserves) (rule beside_critic_applyCriticConflict)

lemma fold_critic_log:
  "conflicts (fold applyCriticConflict cs s) = rev (map to_conflict cs) @ conflicts s"
  by (induction cs arbitrary: s) (simp_all add: conflicts_applyCriticConflict to_conflict_def)

lemma applyOutputs_people:
  "peopleIndex (applyOutputs now out s) = peopleIndex (people_steps out s)"
proof -
  let ?s2 = "people_steps out s"
  let ?s3 = "fold (applyKnowledgeTopic now) (ko_topics (knowledge out)) ?s2"
  let ?s4 = "fold (applyMemoryUpdate now) (updates (memory out)) ?s3"
  let ?s5 = "fold applyCriticConflict (co_conflicts (critic out)) ?s4"
  have "peopleIndex ?s5 = peopleIndex ?s4"
    using beside_critic_fold [of "co_conflicts (critic out)" ?s4] by (simp add: beside_critic_def)
  also have "\<dots> = peopleIndex ?s3"
    using beside_memory_fold [of now "updates (memory out)" ?s3] by (simp add: beside_memory_def)
  also have "\<dots> = peopleIndex ?s2"
    using beside_topics_fold [of now "ko_topics (knowledge out)" ?s2] by (simp add: beside_topics_def)
  finally show ?thesis
    by (simp add: applyOutputs_def Let_def people_steps_def)
qed


lemma Map_get_Some_key: "Map_get m k = Some v \<Longrightarrow> k \<in> fst ` set m"
  unfolding Map_get_def by (metis map_of_SomeD fst_conv image_eqI)

lemma Map_get_after_conflict:
  "Map_get (topicIndex (applyCriticConflict c s)) k =
     map_option (\<lambda>e. if k = cc_topic c then e\<lparr>isConflicting := True\<rparr> else e)
       (Map_get (topicIndex s) k)"
proof (cases "k = cc_topic c")
  case True
  then show ?thesis
    by (cases "Map_get (topicIndex s) (cc_topic c)")
       (simp_all add: topicIndex_applyCriticConflict Map_get_set)
next
  case False
  then show ?thesis
    by (cases "Map_get (topicIndex s) (cc_topic c)")
       (simp_all add: topicIndex_applyCriticConflict Map_get_set option.map_ident)
qed

lemma keys_after_conflict:
  "map fst (topicIndex (applyCriticConflict c s)) = map fst (topicIndex s)"
proof (cases "Map_get (topicIndex s) (cc_topic c)")
  case None
  then show ?thesis by (simp add: topicIndex_applyCriticConflict)
next
  case (Some e)
  then have "cc_topic c \<in> fst ` set (topicIndex s)" by (rule Map_get_Some_key)
  with Some show ?thesis by (simp add: topicIndex_applyCriticConflict Map_keys_set)
qed

lemma keys_after_conflicts:
  "map fst (topicIndex (fold applyCriticConflict cs s)) = map fst (topicIndex s)"
  by (induction cs arbitrary: s) (simp_all add: keys_after_conflict)

lemma Map_get_after_conflicts:
  "Map_get (topicIndex (fold applyCriticConflict cs s)) k =
     map_option (\<lambda>e. if k \<in> cc_topic ` set cs then e\<lparr>isConflicting := True\<rparr> else e)
       (Map_get (topicIndex s) k)"
proof (induction cs arbitrary: s)
  case Nil
  show ?case by (simp add: option.map_ident)
next
  case (Cons c cs)
  show ?case
    by (cases "Map_get (topicIndex s) k")
       (auto simp: Cons.IH Map_get_after_conflict)
qed



lemmas run_defs = run_loaded_def startProcessing_begin_def startProcessing_loaded_def
  runBatch_begin_def scheduleBatches_def stopBatches_def resetState_def initial_state_def
  initial_status_def mark_completed_def Let_def

section \<open>Lemmas on the people index, the batch runner and runs\<close>

lemma Map_get_other_participant:
  "e \<noteq> p \<Longrightarrow> Map_get (peopleIndex (applyParticipant p s)) e = Map_get (peopleIndex s) e"
  by (simp add: peopleIndex_applyParticipant Map_get_set split: option.splits)

lemma Map_get_fold_participants:
  "e \<notin> set ps \<Longrightarrow>
     Map_get (peopleIndex (fold applyParticipant ps s)) e = Map_get (peopleIndex s) e"
  by (induction ps arbitrary: s) (simp_all add: Map_get_other_participant)

lemma Map_get_fold_ingestion:
  "e \<notin> set (concat (map participants ms)) \<Longrightarrow>
     Map_get (peopleIndex (fold applyIngestionEntry ms s)) e = Map_get (peopleIndex s) e"
  by (induction ms arbitrary: s) (simp_all add: applyIngestionEntry_def Map_get_fold_participants)

lemma Map_get_after_stakeholder:
  "Map_get (peopleIndex (applyStakeholderEntry x s)) e =
     (if sh_email x = e
      then Some (case Map_get (peopleIndex s) e of
                   None \<Rightarrow> new_stakeholder_entry e (sh_importance x)
                 | Some old \<Rightarrow> old\<lparr>inferredRole := Some (sh_importance x)\<rparr>)
      else Map_get (peopleIndex s) e)"
  by (auto simp: peopleIndex_applyStakeholderEntry Map_get_set new_stakeholder_entry_def
           split: option.splits)

lemma Map_get_fold_stakeholders:
  "Map_get (peopleIndex (fold applyStakeholderEntry xs s)) e =
     (case filter (\<lambda>x. sh_email x = e) xs of
        [] \<Rightarrow> Map_get (peopleIndex s) e
      | y # ys \<Rightarrow>
          Some (case Map_get (peopleIndex s) e of
                  None \<Rightarrow> new_stakeholder_entry e (sh_importance (last (y # ys)))
                | Some old \<Rightarrow> old\<lparr>inferredRole := Some (sh_importance (last (y # ys)))\<rparr>))"
proof (induction xs rule: rev_induct)
  case Nil
  show ?case by simp
next
  case (snoc x xs)
  show ?case
  proof (cases "sh_email x = e")
    case False
    then show ?thesis
      by (simp add: Map_get_after_stakeholder snoc.IH)
  next
    case True
    then show ?thesis
      by (cases "filter (\<lambda>x. sh_email x = e) xs"; cases "Map_get (peopleIndex s) e")
         (simp_all add: Map_get_after_stakeholder snoc.IH new_stakeholder_entry_def)
  qed
qed

lemma getPeople_member:
  "Map_get (peopleIndex s) e = Some x \<Longrightarrow> x \<in> set (getPeople s)"
proof -
  assume "Map_get (peopleIndex s) e = Some x"
  then have "(e, x) \<in> set (peopleIndex s)"
    unfolding Map_get_def by (rule map_of_SomeD)
  then have "x \<in> snd ` set (peopleIndex s)" by force
  then show ?thesis by (simp add: getPeople_def Map_values_def)
qed

lemma sched_applyOutputs: "sched (applyOutputs now out s) = sched s"
proof -
  let ?s1 = "fold applyIngestionEntry (ingestionOutputs out) s"
  let ?s2 = "fold applyStakeholderEntry (stakeholders (stakeholder out)) ?s1"
  let ?s3 = "fold (applyKnowledgeTopic now) (ko_topics (knowledge out)) ?s2"
  let ?s4 = "fold (applyMemoryUpdate now) (updates (memory out)) ?s3"
  let ?s5 = "fold applyCriticConflict (co_conflicts (critic out)) ?s4"
  have "sched ?s5 = sched ?s4"
    using beside_critic_fold [of "co_conflicts (critic out)" ?s4]
    by (simp add: beside_critic_def sched_def)
  also have "\<dots> = sched ?s3"
    using beside_memory_fold [of now "updates (memory out)" ?s3]
    by (simp add: beside_memory_def sched_def)
  also have "\<dots> = sched ?s2"
    using beside_topics_fold [of now "ko_topics (knowledge out)" ?s2]
    by (simp add: beside_topics_def sched_def)
  also have "\<dots> = sched ?s1"
    using beside_people_fold_sh [of "stakeholders (stakeholder out)" ?s1]
    by (simp add: beside_people_def sched_def)
  also have "\<dots> = sched s"
    using beside_people_fold_ing [of "ingestionOutputs out" s]
    by (simp add: beside_people_def sched_def)
  finally show ?thesis
    by (simp add: applyOutputs_def Let_def sched_def)
qed

lemma applyOutputs_sched_fields:
  "status (applyOutputs now out s) = status s"
  "queue (applyOutputs now out s) = queue s"
  "batchTimer (applyOutputs now out s) = batchTimer s"
  "batchInProgress (applyOutputs now out s) = batchInProgress s"
  using sched_applyOutputs [of now out s] by (simp_all add: sched_def)

lemma batch_succeeded_fields:
  "queue (batch_succeeded now fl out s) = queue s"
  "batchTimer (batch_succeeded now fl out s) = batchTimer s"
  "batchInProgress (batch_succeeded now fl out s) = batchInProgress s"
  "peopleIndex (batch_succeeded now fl out s) = peopleIndex (applyOutputs now out s)"
  "topicIndex (batch_succeeded now fl out s) = topicIndex (applyOutputs now out s)"
  "phase (status (batch_succeeded now fl out s)) = phase (status s)"
  "queued (status (batch_succeeded now fl out s)) = queued (status s)"
  "errors (status (batch_succeeded now fl out s)) = errors (status s)"
  "processed (status (batch_succeeded now fl out s)) = processed (status s) + length (batch fl)"
  "batches (status (batch_succeeded now fl out s)) = batchNumber fl"
  by (simp_all add: batch_succeeded_def Let_def applyOutputs_sched_fields)

lemma batch_failed_fields:
  "queue (batch_failed s) = queue s"
  "batchTimer (batch_failed s) = batchTimer s"
  "batchInProgress (batch_failed s) = batchInProgress s"
  "peopleIndex (batch_failed s) = peopleIndex s"
  "topicIndex (batch_failed s) = topicIndex s"
  "phase (status (batch_failed s)) = phase (status s)"
  "queued (status (batch_failed s)) = queued (status s)"
  "errors (status (batch_failed s)) = errors (status s) + 1"
  "processed (status (batch_failed s)) = processed (status s)"
  "batches (status (batch_failed s)) = batches (status s)"
  by (simp_all add: batch_failed_def)

lemma runBatch_end_eq:
  "runBatch_end cap now fl s =
     (if queue s = []
      then mark_completed now ((settle_result cap now fl s)\<lparr>batchInProgress := False\<rparr>)
      else (settle_result cap now fl s)\<lparr>batchInProgress := False\<rparr>)"
  by (cases "run_pipeline cap (batchNumber fl) (batch fl) s")
     (simp_all add: runBatch_end_def settle_result_def Let_def batch_succeeded_fields
        batch_failed_fields)

lemma mark_completed_fields:
  "queue (mark_completed now s) = queue s"
  "batchTimer (mark_completed now s) = False"
  "batchInProgress (mark_completed now s) = batchInProgress s"
  "peopleIndex (mark_completed now s) = peopleIndex s"
  "topicIndex (mark_completed now s) = topicIndex s"
  "phase (status (mark_completed now s)) = Completed"
  "queued (status (mark_completed now s)) = queued (status s)"
  "errors (status (mark_completed now s)) = errors (status s)"
  "processed (status (mark_completed now s)) = processed (status s)"
  "batches (status (mark_completed now s)) = batches (status s)"
  by (simp_all add: mark_completed_def)

lemma runBatch_end_fields:
  "queue (runBatch_end cap now fl s) = queue s"
  "batchInProgress (runBatch_end cap now fl s) = False"
  "queued (status (runBatch_end cap now fl s)) = queued (status s)"
  "batchTimer (runBatch_end cap now fl s) = (queue s \<noteq> [] \<and> batchTimer s)"
  "phase (status (runBatch_end cap now fl s)) = (if queue s = [] then Completed else phase (status s))"
  by (cases "run_pipeline cap (batchNumber fl) (batch fl) s";
      simp add: runBatch_end_eq settle_result_def mark_completed_fields batch_succeeded_fields
        batch_failed_fields)+

lemma runBatch_end_counts:
  "processed (status (runBatch_end cap now fl s)) =
     processed (status s) + (if isl (run_pipeline cap (batchNumber fl) (batch fl) s) then 0 else length (batch fl))"
  "errors (status (runBatch_end cap now fl s)) =
     errors (status s) + (if isl (run_pipeline cap (batchNumber fl) (batch fl) s) then 1 else 0)"
  "batches (status (runBatch_end cap now fl s)) =
     (if isl (run_pipeline cap (batchNumber fl) (batch fl) s) then batches (status s) else batchNumber fl)"
  by (cases "run_pipeline cap (batchNumber fl) (batch fl) s";
      simp add: runBatch_end_eq settle_result_def mark_completed_fields batch_succeeded_fields
        batch_failed_fields)+

lemma runBatch_begin_idle:
  "batchInProgress s \<Longrightarrow> runBatch_begin bs now s = (None, s)"
  by (simp add: runBatch_begin_def)

lemma runBatch_begin_empty:
  "\<not> batchInProgress s \<Longrightarrow> queue s = [] \<Longrightarrow>
     runBatch_begin bs now s = (None, mark_completed now s)"
  by (simp add: runBatch_begin_def)

lemma runBatch_begin_start:
  "\<not> batchInProgress s \<Longrightarrow> queue s \<noteq> [] \<Longrightarrow>
     runBatch_begin bs now s =
       (Some \<lparr>batchNumber = batches (status s) + 1, batch = take bs (queue s),
              batchTimestamp = now\<rparr>,
        s\<lparr>batchInProgress := True, queue := drop bs (queue s),
          status := (status s)\<lparr>queued := length (drop bs (queue s)),
                               lastBatchAt := Some now\<rparr>\<rparr>)"
  by (simp add: runBatch_begin_def Let_def)

lemma accounted_begin:
  assumes "accounted n L (None, s)"
  shows "accounted n L (runBatch_begin bs now s)"
proof (cases "batchInProgress s")
  case True
  with assms show ?thesis by (simp add: runBatch_begin_idle)
next
  case False
  show ?thesis
  proof (cases "queue s = []")
    case True
    with False assms show ?thesis
      by (simp add: runBatch_begin_empty accounted_def in_flight_size_def mark_completed_fields)
  next
    case nonempty: False
    have "length (drop bs (queue s)) + length (take bs (queue s)) = length (queue s)"
      by simp
    with False nonempty assms show ?thesis
      by (simp add: runBatch_begin_start accounted_def in_flight_size_def)
  qed
qed

lemma accounted_tick:
  assumes "accounted n L (fl, s)"
  shows "accounted n L (step bs (Tick now) (fl, s))"
proof (cases "batchTimer s \<and> \<not> batchInProgress s \<and> phase (status s) = Running")
  case False
  with assms show ?thesis by (auto simp: timer_tick_def)
next
  case True
  with assms have none: "fl = None" by (auto simp: accounted_def)
  with assms have "accounted n L (runBatch_begin bs now s)"
    by (simp add: accounted_begin)
  with True none show ?thesis
    by (cases "runBatch_begin bs now s"; cases "fst (runBatch_begin bs now s)")
       (auto simp: timer_tick_def)
qed

lemma accounted_settled:
  assumes "accounted n L (fl, s)"
  shows "accounted n (L + lost_now (Settled cap now) (fl, s)) (step bs (Settled cap now) (fl, s))"
proof (cases fl)
  case None
  with assms show ?thesis
    by (simp add: lost_now_def settles_def accounted_def in_flight_size_def)
next
  case (Some f)
  show ?thesis
  proof (cases "run_pipeline cap (batchNumber f) (batch f) s")
    case (Inl e)
    with Some assms show ?thesis
      by (simp add: lost_now_def settles_def accounted_def in_flight_size_def
          runBatch_end_fields runBatch_end_counts)
  next
    case (Inr out)
    with Some assms show ?thesis
      by (simp add: lost_now_def settles_def accounted_def in_flight_size_def
          runBatch_end_fields runBatch_end_counts)
  qed
qed

lemma accounted_step:
  "accounted n L c \<Longrightarrow> accounted n (L + lost_now ev c) (step bs ev c)"
proof (cases ev; cases c)
  fix now fl s
  assume "accounted n L c" "ev = Tick now" "c = (fl, s)"
  then show ?thesis
    using accounted_tick [of n L fl s bs now] by (simp add: lost_now_def settles_def)
next
  fix cap now fl s
  assume "accounted n L c" "ev = Settled cap now" "c = (fl, s)"
  then show ?thesis
    using accounted_settled [of n L fl s cap now bs] by simp
qed

lemma accounted_exec:
  "accounted n L c \<Longrightarrow> accounted n (L + lost_records bs evs c) (exec bs evs c)"
proof (induction evs arbitrary: L c)
  case Nil
  then show ?case by (simp add: exec_def)
next
  case (Cons ev evs)
  from Cons.prems have "accounted n (L + lost_now ev c) (step bs ev c)"
    by (rule accounted_step)
  then have "accounted n (L + lost_now ev c + lost_records bs evs (step bs ev c))
               (exec bs evs (step bs ev c))"
    by (rule Cons.IH)
  then show ?case by (simp add: exec_def add.assoc)
qed

lemma loaded_state_fields:
  fixes t0 :: string and recs :: "EmailRecord list" and s0 :: state
  assumes "phase (status s0) \<noteq> Running"
  defines "s \<equiv> scheduleBatches
     ((snd (startProcessing_begin t0 s0))
        \<lparr>queue := recs,
         status := (status (snd (startProcessing_begin t0 s0)))\<lparr>queued := length recs\<rparr>\<rparr>)"
  shows "queue s = recs" "queued (status s) = length recs" "processed (status s) = 0"
    "errors (status s) = 0" "batches (status s) = 0" "phase (status s) = Running"
    "batchTimer s" "batchInProgress s = batchInProgress s0"
    "peopleIndex s = []" "topicIndex s = []" "conflicts s = []" "knowledgeUpdates s = []"
    "decisionLog s = []" "informationFlow s = []"
  using assms(1) unfolding s_def
  by (simp_all add: startProcessing_begin_def Let_def resetState_def scheduleBatches_def
      stopBatches_def initial_status_def)

lemma run_loaded_eq:
  "run_loaded bs t0 t1 recs s0 =
     runBatch_begin bs t1 (scheduleBatches
       ((snd (startProcessing_begin t0 s0))
          \<lparr>queue := recs,
           status := (status (snd (startProcessing_begin t0 s0)))\<lparr>queued := length recs\<rparr>\<rparr>))"
  by (simp add: run_loaded_def startProcessing_loaded_def Let_def)

lemma accounted_loaded:
  assumes "phase (status s0) \<noteq> Running"
  shows "accounted (length recs) 0 (run_loaded bs t0 t1 recs s0)"
  unfolding run_loaded_eq
  by (rule accounted_begin)
     (simp add: accounted_def in_flight_size_def loaded_state_fields [OF assms])

lemma stored_count_participant:
  "stored_count (peopleIndex (applyParticipant p s)) e =
     stored_count (peopleIndex s) e + (if p = e \<and> p \<noteq> [] then 1 else 0)"
  by (auto simp: stored_count_def peopleIndex_applyParticipant Map_get_set split: option.splits)

lemma stored_count_participants:
  "stored_count (peopleIndex (fold applyParticipant ps s)) e =
     stored_count (peopleIndex s) e + (if e = [] then 0 else count_list ps e)"
  by (induction ps arbitrary: s) (auto simp: stored_count_participant)

lemma occurrences_Cons:
  "occurrences e (m # ms) = (if e = [] then 0 else count_list (participants m) e) + occurrences e ms"
  by (simp add: occurrences_def)

lemma occurrences_append: "occurrences e (ms @ ms') = occurrences e ms + occurrences e ms'"
  by (simp add: occurrences_def)

lemma stored_count_ingestion_entry:
  "stored_count (peopleIndex (applyIngestionEntry m s)) e =
     stored_count (peopleIndex s) e + (if e = [] then 0 else count_list (participants m) e)"
  by (simp add: applyIngestionEntry_def stored_count_participants)

lemma stored_count_ingestion:
  "stored_count (peopleIndex (fold applyIngestionEntry ms s)) e =
     stored_count (peopleIndex s) e + occurrences e ms"
proof (induction ms arbitrary: s)
  case Nil
  show ?case by (simp add: occurrences_def)
next
  case (Cons m ms)
  show ?case
    by (simp add: Cons.IH stored_count_ingestion_entry occurrences_Cons)
qed

lemma stored_count_stakeholder:
  "stored_count (peopleIndex (applyStakeholderEntry x s)) e = stored_count (peopleIndex s) e"
  by (auto simp: stored_count_def Map_get_after_stakeholder new_stakeholder_entry_def
      split: option.splits)

lemma stored_count_stakeholders:
  "stored_count (peopleIndex (fold applyStakeholderEntry xs s)) e = stored_count (peopleIndex s) e"
  by (induction xs arbitrary: s) (simp_all add: stored_count_stakeholder)

lemma stored_count_applyOutputs:
  "stored_count (peopleIndex (applyOutputs now out s)) e =
     stored_count (peopleIndex s) e + occurrences e (ingestionOutputs out)"
  by (simp add: applyOutputs_people people_steps_def stored_count_stakeholders
      stored_count_ingestion)

lemma peopleIndex_runBatch_begin:
  "peopleIndex (snd (runBatch_begin bs now s)) = peopleIndex s"
  by (simp add: runBatch_begin_def Let_def mark_completed_fields)

lemma peopleIndex_runBatch_end:
  "peopleIndex (runBatch_end cap now fl s) =
     (case run_pipeline cap (batchNumber fl) (batch fl) s of
        Inl e \<Rightarrow> peopleIndex s
      | Inr out \<Rightarrow> peopleIndex (applyOutputs now out s))"
  by (cases "run_pipeline cap (batchNumber fl) (batch fl) s")
     (simp_all add: runBatch_end_eq settle_result_def mark_completed_fields
        batch_succeeded_fields batch_failed_fields)

lemma stored_count_step:
  "stored_count (peopleIndex (snd (step bs ev c))) e =
     stored_count (peopleIndex (snd c)) e + occurrences e (parsed_now ev c)"
proof (cases c)
  case (Pair fl s)
  show ?thesis
  proof (cases ev)
    case (Tick now)
    have "peopleIndex (snd (step bs (Tick now) (fl, s))) = peopleIndex s"
      using peopleIndex_runBatch_begin [of bs now s]
      by (cases "runBatch_begin bs now s"; cases "fst (runBatch_begin bs now s)")
         (auto simp: timer_tick_def)
    with Tick Pair show ?thesis
      by (simp add: parsed_now_def settles_def occurrences_def)
  next
    case (Settled cap now)
    show ?thesis
    proof (cases fl)
      case None
      with Settled Pair show ?thesis
        by (simp add: parsed_now_def settles_def occurrences_def)
    next
      case (Some f)
      with Settled Pair show ?thesis
        by (cases "run_pipeline cap (batchNumber f) (batch f) s")
           (simp_all add: parsed_now_def settles_def peopleIndex_runBatch_end
              stored_count_applyOutputs occurrences_def)
    qed
  qed
qed

lemma stored_count_exec:
  "stored_count (peopleIndex (snd (exec bs evs c))) e =
     stored_count (peopleIndex (snd c)) e + occurrences e (parsed_messages bs evs c)"
proof (induction evs arbitrary: c)
  case Nil
  show ?case by (simp add: exec_def occurrences_def)
next
  case (Cons ev evs)
  have "stored_count (peopleIndex (snd (exec bs evs (step bs ev c)))) e =
          stored_count (peopleIndex (snd (step bs ev c))) e
            + occurrences e (parsed_messages bs evs (step bs ev c))"
    by (rule Cons.IH)
  then show ?case
    by (simp add: exec_def stored_count_step occurrences_append)
qed

lemma peopleIndex_loaded:
  assumes "phase (status s0) \<noteq> Running"
  shows "peopleIndex (snd (run_loaded bs t0 t1 recs s0)) = []"
  unfolding run_loaded_eq
  by (simp add: peopleIndex_runBatch_begin loaded_state_fields [OF assms])

lemma occurrences_once:
  assumes "e \<noteq> []" and "\<forall>m \<in> set ms. count_list (participants m) e \<le> 1"
  shows "occurrences e ms = spec_messageCount e ms"
  using assms(2)
proof (induction ms)
  case Nil
  show ?case by (simp add: occurrences_def spec_messageCount_def)
next
  case (Cons m ms)
  then have le: "count_list (participants m) e \<le> 1"
    and rest: "occurrences e ms = spec_messageCount e ms"
    by simp_all
  have "count_list (participants m) e = (if e \<in> set (participants m) then 1 else 0)"
  proof (cases "e \<in> set (participants m)")
    case True
    then have "count_list (participants m) e \<noteq> 0" by (simp add: count_list_0_iff)
    with le True show ?thesis by simp
  next
    case False
    then show ?thesis by (simp add: count_list_0_iff)
  qed
  moreover have "spec_messageCount e (m # ms) =
      (if e \<in> set (participants m) then 1 else 0) + spec_messageCount e ms"
    by (auto simp: spec_messageCount_def participants_def)
  ultimately show ?case
    using assms(1) rest by (simp add: occurrences_Cons)
qed

lemma sample_ingest:
  "ingest_all (sample_capabilities sel) n i b = Inr (map sample_parse b)"
  by (induction b arbitrary: i) (simp_all add: sample_capabilities_def sample_parse_def)

lemma failing_ingest:
  "ingest_all failing_capabilities n i b = Inr (map sample_parse b)"
  by (induction b arbitrary: i)
     (simp_all add: failing_capabilities_def sample_capabilities_def sample_parse_def)

lemma failing_pipeline:
  "run_pipeline failing_capabilities n b s = Inl (JsError ''schema mismatch'')"
  by (simp add: run_pipeline_def failing_ingest) (simp add: failing_capabilities_def)

lemma sample_pipeline_none:
  "run_pipeline (sample_capabilities no_agents) n b s =
     Inr \<lparr>ingestionOutputs = map sample_parse b,
          triage = \<lparr>runAgents = no_agents, reasoning = ''routine''\<rparr>,
          knowledge = empty_knowledge, stakeholder = empty_stakeholder,
          memory = empty_memory, critic = empty_critic,
          coordinator = \<lparr>executiveBrief = ''brief'', notify = [],
                         priorityItems = [''budget'']\<rparr>\<rparr>"
  by (simp add: run_pipeline_def sample_ingest)
     (simp add: sample_capabilities_def opt_stage_def no_agents_def)

lemma loaded_example_eq:
  "loaded_example =
     (Some \<lparr>batchNumber = 1, batch = sample_records, batchTimestamp = ''t1''\<rparr>,
      initial_state\<lparr>status := initial_status\<lparr>phase := Running, startedAt := Some ''t0'',
                                               lastBatchAt := Some ''t1''\<rparr>,
                    batchTimer := True, batchInProgress := True\<rparr>)"
  by (simp add: loaded_example_def run_defs sample_records_def)

lemma example_parsed:
  "parsed_messages 10 [Settled (sample_capabilities no_agents) ''t2''] loaded_example
     = map sample_parse sample_records"
  by (simp add: parsed_now_def settles_def loaded_example_eq sample_pipeline_none)

lemma example_exec:
  "exec 10 [Settled cap ''t2''] loaded_example =
     (None, runBatch_end cap ''t2''
        \<lparr>batchNumber = 1, batch = sample_records, batchTimestamp = ''t1''\<rparr> (snd loaded_example))"
  by (simp add: exec_def loaded_example_eq)

lemma example_people:
  "peopleIndex (snd (exec 10 [Settled (sample_capabilities no_agents) ''t2''] loaded_example)) =
     [(''a@corp'', \<lparr>pe_email = ''a@corp'', pe_name = None, inferredRole = None,
                    messageCount = 2, pe_topics = []\<rparr>),
      (''b@corp'', \<lparr>pe_email = ''b@corp'', pe_name = None, inferredRole = None,
                    messageCount = 3, pe_topics = []\<rparr>),
      (''c@corp'', \<lparr>pe_email = ''c@corp'', pe_name = None, inferredRole = None,
                    messageCount = 1, pe_topics = []\<rparr>)]"
proof -
  let ?fl = "\<lparr>batchNumber = 1, batch = sample_records, batchTimestamp = ''t1''\<rparr>"
  let ?out = "\<lparr>ingestionOutputs = map sample_parse sample_records,
          triage = \<lparr>runAgents = no_agents, reasoning = ''routine''\<rparr>,
          knowledge = empty_knowledge, stakeholder = empty_stakeholder,
          memory = empty_memory, critic = empty_critic,
          coordinator = \<lparr>executiveBrief = ''brief'', notify = [],
                         priorityItems = [''budget'']\<rparr>\<rparr>"
  have "peopleIndex (snd (exec 10 [Settled (sample_capabilities no_agents) ''t2''] loaded_example))
      = peopleIndex (runBatch_end (sample_capabilities no_agents) ''t2'' ?fl (snd loaded_example))"
    by (simp add: example_exec)
  also have "\<dots> = peopleIndex (applyOutputs ''t2'' ?out (snd loaded_example))"
    by (simp add: peopleIndex_runBatch_end sample_pipeline_none)
  also have "\<dots> = peopleIndex (people_steps ?out (snd loaded_example))"
    by (rule applyOutputs_people)
  also have "\<dots> = peopleIndex (fold applyIngestionEntry (map sample_parse sample_records)
                       (snd loaded_example))"
    by (simp add: people_steps_def empty_stakeholder_def)
  also have "\<dots> =
     [(''a@corp'', \<lparr>pe_email = ''a@corp'', pe_name = None, inferredRole = None,
                    messageCount = 2, pe_topics = []\<rparr>),
      (''b@corp'', \<lparr>pe_email = ''b@corp'', pe_name = None, inferredRole = None,
                    messageCount = 3, pe_topics = []\<rparr>),
      (''c@corp'', \<lparr>pe_email = ''c@corp'', pe_name = None, inferredRole = None,
                    messageCount = 1, pe_topics = []\<rparr>)]"
    by (simp add: sample_records_def sample_parse_def
      applyIngestionEntry_def participants_def applyParticipant_def Map_get_def Map_set_def
      loaded_example_eq initial_state_def)
  finally show ?thesis .
qed

section \<open>Lemmas on the scheduler, the pipeline and the snapshot\<close>




lemma step_tick_none: "step bs (Tick now) (None, s) = timer_tick bs now s"
  by (simp split: prod.splits option.splits)

lemma step_tick_guarded:
  "\<not> (batchTimer s \<and> \<not> batchInProgress s \<and> phase (status s) = Running) \<Longrightarrow>
     step bs (Tick now) (fl, s) = (fl, s)"
  by (cases "batchTimer s"; cases "batchInProgress s"; simp add: timer_tick_def)













lemma running_example_begin:
  "runBatch_begin 2 ''t1'' running_example =
     (Some \<lparr>batchNumber = 1, batch = take 2 sample_records, batchTimestamp = ''t1''\<rparr>,
      snd (runBatch_begin 2 ''t1'' running_example))"
  by (simp add: runBatch_begin_def Let_def running_example_def initial_state_def
      initial_status_def sample_records_def)















lemma reliable_ingest: "reliable cap \<Longrightarrow> \<not> isl (ingest_all cap n i b)"
proof (induction b arbitrary: i)
  case Nil
  show ?case by simp
next
  case (Cons r rs)
  from Cons.prems have "\<not> isl (runIngestionAgent cap r n i)" by (simp add: reliable_def)
  moreover from Cons have "\<not> isl (ingest_all cap n (Suc i) rs)" by simp
  ultimately show ?case by (auto split: sum.splits)
qed

lemma opt_stage_ok: "\<not> isl call \<Longrightarrow> \<not> isl (opt_stage flag call d)"
  by (simp add: opt_stage_def)

lemma reliable_pipeline:
  assumes "reliable cap"
  shows "\<not> isl (run_pipeline cap n b s)"
proof -
  from assms have ing: "\<not> isl (ingest_all cap n 0 b)" by (rule reliable_ingest)
  then obtain ing where 1: "ingest_all cap n 0 b = Inr ing" by (cases "ingest_all cap n 0 b") auto
  from assms have "\<not> isl (runTriageAgent cap ing n)" by (simp add: reliable_def)
  then obtain tri where 2: "runTriageAgent cap ing n = Inr tri"
    by (cases "runTriageAgent cap ing n") auto
  from assms have "\<not> isl (opt_stage (ra_knowledge (runAgents tri))
      (runKnowledgeAgent cap ing n) empty_knowledge)"
    by (simp add: reliable_def opt_stage_ok)
  then obtain kn where 3: "opt_stage (ra_knowledge (runAgents tri))
      (runKnowledgeAgent cap ing n) empty_knowledge = Inr kn"
    by (cases "opt_stage (ra_knowledge (runAgents tri)) (runKnowledgeAgent cap ing n) empty_knowledge") auto
  from assms have "\<not> isl (opt_stage (ra_stakeholder (runAgents tri))
      (runStakeholderAgent cap ing n) empty_stakeholder)"
    by (simp add: reliable_def opt_stage_ok)
  then obtain sh where 4: "opt_stage (ra_stakeholder (runAgents tri))
      (runStakeholderAgent cap ing n) empty_stakeholder = Inr sh"
    by (cases "opt_stage (ra_stakeholder (runAgents tri)) (runStakeholderAgent cap ing n) empty_stakeholder") auto
  from assms have "\<not> isl (opt_stage (ra_memory (runAgents tri))
      (runMemoryAgent cap (memoryContext s) n) empty_memory)"
    by (simp add: reliable_def opt_stage_ok)
  then obtain mem where 5: "opt_stage (ra_memory (runAgents tri))
      (runMemoryAgent cap (memoryContext s) n) empty_memory = Inr mem"
    by (cases "opt_stage (ra_memory (runAgents tri)) (runMemoryAgent cap (memoryContext s) n) empty_memory") auto
  from assms have "\<not> isl (opt_stage (ra_critic (runAgents tri))
      (runCriticAgent cap (kn, sh, mem) n) empty_critic)"
    by (simp add: reliable_def opt_stage_ok)
  then obtain cr where 6: "opt_stage (ra_critic (runAgents tri))
      (runCriticAgent cap (kn, sh, mem) n) empty_critic = Inr cr"
    by (cases "opt_stage (ra_critic (runAgents tri)) (runCriticAgent cap (kn, sh, mem) n) empty_critic") auto
  from assms have "\<not> isl (runCoordinatorAgent cap (kn, sh, mem, cr, tri) n)"
    by (simp add: reliable_def)
  then obtain co where 7: "runCoordinatorAgent cap (kn, sh, mem, cr, tri) n = Inr co"
    by (cases "runCoordinatorAgent cap (kn, sh, mem, cr, tri) n") auto
  from 1 2 3 4 5 6 7 show ?thesis by (simp add: run_pipeline_def)
qed

lemma exec_Nil: "exec bs [] c = c"
  by (simp add: exec_def)

lemma exec_Cons: "exec bs (ev # evs) c = exec bs evs (step bs ev c)"
  by (simp add: exec_def)

lemma exec_append: "exec bs (evs @ evs') c = exec bs evs' (exec bs evs c)"
  by (simp add: exec_def)

lemma progress_begin:
  assumes "\<not> batchInProgress s" "queue s \<noteq> []"
  shows "progress (runBatch_begin bs now s) =
     (Some (batches (status s) + 1, take bs (queue s)), drop bs (queue s), phase (status s),
      length (drop bs (queue s)), processed (status s), batches (status s), errors (status s),
      batchTimer s, True)"
  using assms by (simp add: runBatch_begin_start progress_def)

lemma progress_tick:
  assumes "progress c = (None, q, Running, qd, p, bt, e, True, False)" "q \<noteq> []"
  shows "progress (step bs (Tick now) c) =
     (Some (bt + 1, take bs q), drop bs q, Running, length (drop bs q), p, bt, e, True, True)"
proof (cases c)
  case (Pair fl s)
  with assms have f: "fl = None" "queue s = q" "phase (status s) = Running"
      "processed (status s) = p" "batches (status s) = bt" "errors (status s) = e"
      "batchTimer s" "\<not> batchInProgress s"
    by (simp_all add: progress_def)
  from f have "timer_tick bs now s = runBatch_begin bs now s"
    by (simp add: timer_tick_def)
  then have eq: "step bs (Tick now) (None, s) = runBatch_begin bs now s"
    unfolding step_tick_none .
  from f assms(2) have "progress (runBatch_begin bs now s) =
     (Some (bt + 1, take bs q), drop bs q, Running, length (drop bs q), p, bt, e, True, True)"
    by (simp add: progress_begin)
  with eq f Pair show ?thesis by (simp only:)

qed

lemma progress_settled:
  assumes "progress c = (Some (k, b), q, Running, qd, p, bt, e, True, True)" "reliable cap"
  shows "progress (step bs (Settled cap now) c) =
     (None, q, if q = [] then Completed else Running, qd, p + length b, k, e, q \<noteq> [], False)"
proof (cases c)
  case (Pair fl s)
  with assms(1) obtain f where f: "fl = Some f" "batchNumber f = k" "batch f = b"
    by (auto simp: progress_def)
  from assms(1) Pair have s: "queue s = q" "phase (status s) = Running" "queued (status s) = qd"
      "processed (status s) = p" "errors (status s) = e" "batchTimer s"
    by (simp_all add: progress_def)
  from Pair f have "step bs (Settled cap now) c = (None, runBatch_end cap now f s)" by simp
  then show ?thesis
    by (simp add: progress_def runBatch_end_fields runBatch_end_counts
        reliable_pipeline [OF assms(2)] f s)
qed

lemma progress_loaded:
  assumes "phase (status s0) \<noteq> Running" "\<not> batchInProgress s0" "recs \<noteq> []"
  shows "progress (run_loaded bs t0 t1 recs s0) =
     (Some (1, take bs recs), drop bs recs, Running, length (drop bs recs), 0, 0, 0, True, True)"
  unfolding run_loaded_eq
  by (subst progress_begin) (simp_all add: loaded_state_fields [OF assms(1)] assms(2,3))

lemma stamped_step:
  assumes "stamped c"
  shows "stamped (step bs ev c) \<and> batches (status (snd c)) \<le> batches (status (snd (step bs ev c)))"
proof (cases c)
  case (Pair fl s)
  show ?thesis
  proof (cases ev)
    case (Tick now)
    show ?thesis
    proof (cases "batchTimer s \<and> \<not> batchInProgress s \<and> phase (status s) = Running")
      case False
      then have "step bs (Tick now) (fl, s) = (fl, s)" by (rule step_tick_guarded)
      with assms Pair Tick show ?thesis by simp
    next
      case True
      with assms Pair have none: "fl = None"
        by (cases fl) (simp_all add: stamped_def)
      from True have "timer_tick bs now s = runBatch_begin bs now s"
        by (simp add: timer_tick_def)
      then have eq: "step bs (Tick now) (fl, s) = runBatch_begin bs now s"
        unfolding none step_tick_none .
      from True have "stamped (runBatch_begin bs now s)
          \<and> batches (status s) \<le> batches (status (snd (runBatch_begin bs now s)))"
        by (cases "queue s = []")
           (simp_all add: runBatch_begin_empty runBatch_begin_start stamped_def
              mark_completed_fields)
      with eq Pair Tick show ?thesis by simp
    qed
  next
    case (Settled cap now)
    show ?thesis
    proof (cases fl)
      case None
      with assms Pair Settled show ?thesis by simp
    next
      case (Some f)
      with assms Pair have "batchNumber f = batches (status s) + 1" by (simp add: stamped_def)
      with Some Pair Settled show ?thesis
        by (simp add: stamped_def runBatch_end_counts)
    qed
  qed
qed

lemma stamped_exec:
  "stamped c \<Longrightarrow>
     stamped (exec bs evs c) \<and> batches (status (snd c)) \<le> batches (status (snd (exec bs evs c)))"
proof (induction evs arbitrary: c)
  case Nil
  then show ?case by (simp add: exec_Nil)
next
  case (Cons ev evs)
  from stamped_step [OF Cons.prems, of bs ev]
  have 1: "stamped (step bs ev c)"
    and 2: "batches (status (snd c)) \<le> batches (status (snd (step bs ev c)))"
    by simp_all
  from Cons.IH [OF 1] 2 show ?case by (simp add: exec_Cons)
qed

lemma stamped_loaded:
  assumes "phase (status s0) \<noteq> Running"
  shows "stamped (run_loaded bs t0 t1 recs s0)"
  unfolding run_loaded_eq
  by (simp add: runBatch_begin_def Let_def stamped_def loaded_state_fields [OF assms])

lemma begin_pops_front:
  assumes "runBatch_begin bs now s = (Some fl, s')"
  shows "batch fl = take bs (queue s)" "queue s' = drop bs (queue s)"
    "batch fl @ queue s' = queue s" "length (batch fl) \<le> bs"
    "batchNumber fl = batches (status s) + 1" "1 \<le> batchNumber fl"
    "queued (status s') = length (queue s')"
proof -
  from assms have free: "\<not> batchInProgress s" and nonempty: "queue s \<noteq> []"
    by (auto simp: runBatch_begin_def Let_def split: if_splits)
  from assms show "batch fl = take bs (queue s)" "queue s' = drop bs (queue s)"
    "batch fl @ queue s' = queue s" "length (batch fl) \<le> bs"
    "batchNumber fl = batches (status s) + 1" "1 \<le> batchNumber fl"
    "queued (status s') = length (queue s')"
    unfolding runBatch_begin_start [OF free nonempty] by auto
qed

lemma reliable_sample: "reliable (sample_capabilities sel)"
  by (simp add: reliable_def sample_capabilities_def)

lemma loaded_two:
  "fst (run_loaded 2 ''t0'' ''t1'' sample_records initial_state)
     = Some \<lparr>batchNumber = 1, batch = take 2 sample_records, batchTimestamp = ''t1''\<rparr>"
  by (simp add: run_defs sample_records_def)

section \<open>Starting while a run is under way\<close>

text \<open>
  Claim C4. Calling \<^verbatim>\<open>startProcessing\<close> while the phase is \<open>Running\<close> returns the
  current status and leaves the whole module state as it is: the queue, the three
  indexes, the logs and every counter. This holds for the complete call, whatever the
  record source and the capabilities would have answered, and for its first part.
\<close>

theorem start_while_running_is_noop:
  "phase (status s) = Running \<Longrightarrow>
     startProcessing limit batch_size t0 source t1 cap t2 s = (status s, s)
     \<and> startProcessing_begin t0 s = (Some (status s), s)"
  by (simp add: startProcessing_def startProcessing_begin_def getStatus_def)

theorem start_while_running_is_noop_witness:
  "phase (status (snd (run_loaded 10 ''t0'' ''t1'' sample_records initial_state))) = Running
   \<and> startProcessing 100 10 ''t5'' [] ''t6'' failing_capabilities ''t7''
        (snd (run_loaded 10 ''t0'' ''t1'' sample_records initial_state))
      = (status (snd (run_loaded 10 ''t0'' ''t1'' sample_records initial_state)),
         snd (run_loaded 10 ''t0'' ''t1'' sample_records initial_state))"
proof -
  have h: "phase (status (snd (run_loaded 10 ''t0'' ''t1'' sample_records initial_state))) = Running"
    by (simp add: run_defs sample_records_def)
  from start_while_running_is_noop [OF h] h show ?thesis by blast
qed

section \<open>Knowledge-change events\<close>

text \<open>
  Claim C5. Applying a knowledge-change event stores, under the event's topic key, exactly
  the entry the specification prescribes (confidence 0.4, 0.75 or 0.6 by change type, the
  flags from the change type, the new timestamp), whether or not the key was present;
  the event is put at the front of the change log and no other key changes. Applying
  N1 and then N2 for the same key leaves the topic index as N2 alone would; over a whole
  list of events each key ends with the entry of its last event.
\<close>

theorem memory_update_overwrites:
  "Map_get (topicIndex (applyMemoryUpdate now u s)) (mu_topic u) = Some (spec_topic_entry now u)
   \<and> knowledgeUpdates (applyMemoryUpdate now u s) = u # knowledgeUpdates s
   \<and> (\<forall>k. k \<noteq> mu_topic u \<longrightarrow>
         Map_get (topicIndex (applyMemoryUpdate now u s)) k = Map_get (topicIndex s) k)
   \<and> (\<forall>n1 n2 t1 t2. mu_topic n1 = mu_topic n2 \<longrightarrow>
         topicIndex (applyMemoryUpdate t2 n2 (applyMemoryUpdate t1 n1 s))
           = topicIndex (applyMemoryUpdate t2 n2 s))
   \<and> (\<forall>us k. Map_get (topicIndex (fold (applyMemoryUpdate now) us s)) k =
         (case find (\<lambda>u. mu_topic u = k) (rev us) of
            Some u \<Rightarrow> Some (spec_topic_entry now u)
          | None \<Rightarrow> Map_get (topicIndex s) k))
   \<and> (\<forall>us. knowledgeUpdates (fold (applyMemoryUpdate now) us s) = rev us @ knowledgeUpdates s)"
  by (simp add: topicIndex_applyMemoryUpdate knowledgeUpdates_applyMemoryUpdate Map_get_set
      Map_set_twice fold_memory_topicIndex fold_memory_log)

theorem memory_update_overwrites_witness:
  "''hiring'' \<noteq> ''budget''
   \<and> Map_get (topicIndex (applyMemoryUpdate ''t2''
         \<lparr>mu_topic = ''budget'', changeType = CT_update, mu_summary = ''revised''\<rparr>
         initial_state)) ''hiring'' = None
   \<and> topicIndex (applyMemoryUpdate ''t2''
         \<lparr>mu_topic = ''budget'', changeType = CT_update, mu_summary = ''revised''\<rparr>
         (applyMemoryUpdate ''t1''
            \<lparr>mu_topic = ''budget'', changeType = CT_conflict, mu_summary = ''disputed''\<rparr>
            initial_state))
     = [(''budget'', \<lparr>te_topic = ''budget'', latestSummary = ''revised'', confidence = 0.6,
          isNew = False, isConflicting = False, lastUpdatedAt = ''t2''\<rparr>)]"
proof -
  let ?u = "\<lparr>mu_topic = ''budget'', changeType = CT_update, mu_summary = ''revised''\<rparr>"
  let ?n1 = "\<lparr>mu_topic = ''budget'', changeType = CT_conflict, mu_summary = ''disputed''\<rparr>"
  note inst = memory_update_overwrites [of "''t2''" ?u initial_state]
  have ne: "''hiring'' \<noteq> ''budget''" by simp
  have same: "mu_topic ?n1 = mu_topic ?u" by simp
  from inst ne
  have a: "Map_get (topicIndex (applyMemoryUpdate ''t2'' ?u initial_state)) ''hiring''
      = Map_get (topicIndex initial_state) ''hiring''"
    by simp
  from inst same
  have b: "topicIndex (applyMemoryUpdate ''t2'' ?u (applyMemoryUpdate ''t1'' ?n1 initial_state))
      = topicIndex (applyMemoryUpdate ''t2'' ?u initial_state)"
    by blast
  have c: "topicIndex (applyMemoryUpdate ''t2'' ?u initial_state)
      = [(''budget'', \<lparr>te_topic = ''budget'', latestSummary = ''revised'', confidence = 0.6,
          isNew = False, isConflicting = False, lastUpdatedAt = ''t2''\<rparr>)]"
    by (simp add: applyMemoryUpdate_def Let_def initial_state_def Map_set_def)
  have d: "Map_get (topicIndex initial_state) ''hiring'' = None"
    by (simp add: initial_state_def Map_get_def)
  from ne a b c d show ?thesis by simp
qed

section \<open>Audit conflicts\<close>

text \<open>
  Claim C6. Applying an audit conflict puts it at the front of the conflict log. If the
  topic index has an entry for the conflict's topic, that entry gets
  \<open>isConflicting = True\<close> and keeps its other fields; every other key keeps its entry;
  the keys and their order stay the same, so no entry is created; if the key is absent
  the topic index is unchanged. Nothing outside the topic index and the conflict log is
  touched. The same holds for the whole loop over a list of conflicts.
\<close>

theorem critic_conflict_effect:
  "conflicts (applyCriticConflict c s) = to_conflict c # conflicts s
   \<and> Map_get (topicIndex (applyCriticConflict c s)) (cc_topic c) =
       map_option (\<lambda>e. e\<lparr>isConflicting := True\<rparr>) (Map_get (topicIndex s) (cc_topic c))
   \<and> (\<forall>k. k \<noteq> cc_topic c \<longrightarrow>
         Map_get (topicIndex (applyCriticConflict c s)) k = Map_get (topicIndex s) k)
   \<and> map fst (topicIndex (applyCriticConflict c s)) = map fst (topicIndex s)
   \<and> (Map_get (topicIndex s) (cc_topic c) = None \<longrightarrow>
         topicIndex (applyCriticConflict c s) = topicIndex s)
   \<and> beside_critic (applyCriticConflict c s) = beside_critic s
   \<and> conflicts (fold applyCriticConflict cs s) = rev (map to_conflict cs) @ conflicts s
   \<and> map fst (topicIndex (fold applyCriticConflict cs s)) = map fst (topicIndex s)
   \<and> (\<forall>k. Map_get (topicIndex (fold applyCriticConflict cs s)) k =
         map_option (\<lambda>e. if k \<in> cc_topic ` set cs then e\<lparr>isConflicting := True\<rparr> else e)
           (Map_get (topicIndex s) k))"
proof -
  have "Map_get (topicIndex s) (cc_topic c) = None \<longrightarrow>
          topicIndex (applyCriticConflict c s) = topicIndex s"
    by (simp add: topicIndex_applyCriticConflict)
  then show ?thesis
    by (simp add: conflicts_applyCriticConflict to_conflict_def Map_get_after_conflict
        keys_after_conflict option.map_ident beside_critic_applyCriticConflict
        fold_critic_log keys_after_conflicts Map_get_after_conflicts)
qed

theorem critic_conflict_effect_witness:
  "Map_get (topicIndex (applyMemoryUpdate ''t1''
       \<lparr>mu_topic = ''budget'', changeType = CT_new, mu_summary = ''first draft''\<rparr>
       initial_state)) ''hiring'' = None
   \<and> ''budget'' \<noteq> ''hiring''
   \<and> topicIndex (applyCriticConflict
        \<lparr>cc_topic = ''hiring'', cc_description = ''two plans'', cc_severity = ''low''\<rparr>
        (applyMemoryUpdate ''t1''
           \<lparr>mu_topic = ''budget'', changeType = CT_new, mu_summary = ''first draft''\<rparr>
           initial_state))
     = topicIndex (applyMemoryUpdate ''t1''
         \<lparr>mu_topic = ''budget'', changeType = CT_new, mu_summary = ''first draft''\<rparr>
         initial_state)
   \<and> Map_get (topicIndex (applyCriticConflict
        \<lparr>cc_topic = ''hiring'', cc_description = ''two plans'', cc_severity = ''low''\<rparr>
        (applyMemoryUpdate ''t1''
           \<lparr>mu_topic = ''budget'', changeType = CT_new, mu_summary = ''first draft''\<rparr>
           initial_state))) ''budget''
     = Map_get (topicIndex (applyMemoryUpdate ''t1''
         \<lparr>mu_topic = ''budget'', changeType = CT_new, mu_summary = ''first draft''\<rparr>
         initial_state)) ''budget''
   \<and> conflicts (applyCriticConflict
        \<lparr>cc_topic = ''hiring'', cc_description = ''two plans'', cc_severity = ''low''\<rparr>
        (applyMemoryUpdate ''t1''
           \<lparr>mu_topic = ''budget'', changeType = CT_new, mu_summary = ''first draft''\<rparr>
           initial_state))
     = [\<lparr>cf_topic = ''hiring'', cf_description = ''two plans''\<rparr>]"
proof -
  let ?s = "applyMemoryUpdate ''t1''
       \<lparr>mu_topic = ''budget'', changeType = CT_new, mu_summary = ''first draft''\<rparr>
       initial_state"
  let ?c = "\<lparr>cc_topic = ''hiring'', cc_description = ''two plans'', cc_severity = ''low''\<rparr>"
  note inst = critic_conflict_effect [of ?c ?s "[]"]
  have absent: "Map_get (topicIndex ?s) (cc_topic ?c) = None"
    by (simp add: applyMemoryUpdate_def Let_def initial_state_def Map_set_def Map_get_def)
  have ne: "''budget'' \<noteq> cc_topic ?c" by simp
  have log: "conflicts ?s = []"
    by (simp add: applyMemoryUpdate_def Let_def initial_state_def)
  from inst absent have a: "topicIndex (applyCriticConflict ?c ?s) = topicIndex ?s"
    by blast
  from inst ne
  have b: "Map_get (topicIndex (applyCriticConflict ?c ?s)) ''budget''
             = Map_get (topicIndex ?s) ''budget''"
    by blast
  from inst log have c: "conflicts (applyCriticConflict ?c ?s) = [to_conflict ?c]"
    by simp
  from absent a b c show ?thesis by (simp add: to_conflict_def)
qed

section \<open>The record reader\<close>



section \<open>Stakeholders without messages\<close>

text \<open>
  Claim C10. Let a stakeholder be reported for an identifier that is not in the people
  index and does not occur among the participants of the batch's parsed messages. Then
  the stakeholder step creates an entry with \<open>messageCount = 0\<close> and the declared
  importance as inferred role; after the whole output application the entry is still
  there with count 0, its role being the importance of the last report for that
  identifier (the declared one when the identifier is reported once), and it is among
  the entries \<open>getPeople\<close> returns.
\<close>

theorem stakeholder_creates_zero_count_entry:
  assumes absent: "Map_get (peopleIndex s) e = None"
    and unparsed: "e \<notin> set (concat (map participants (ingestionOutputs out)))"
    and reported: "x \<in> set (stakeholders (stakeholder out))" "sh_email x = e"
  shows "Map_get (peopleIndex (applyStakeholderEntry x s)) e
           = Some (new_stakeholder_entry e (sh_importance x))
    \<and> Map_get (peopleIndex (applyOutputs now out s)) e
           = Some (new_stakeholder_entry e
               (sh_importance (last (filter (\<lambda>y. sh_email y = e) (stakeholders (stakeholder out))))))
    \<and> new_stakeholder_entry e
         (sh_importance (last (filter (\<lambda>y. sh_email y = e) (stakeholders (stakeholder out)))))
        \<in> set (getPeople (applyOutputs now out s))
    \<and> (filter (\<lambda>y. sh_email y = e) (stakeholders (stakeholder out)) = [x] \<longrightarrow>
          Map_get (peopleIndex (applyOutputs now out s)) e
            = Some (new_stakeholder_entry e (sh_importance x)))"
proof -
  let ?ys = "filter (\<lambda>y. sh_email y = e) (stakeholders (stakeholder out))"
  let ?s1 = "fold applyIngestionEntry (ingestionOutputs out) s"
  from reported have ne: "?ys \<noteq> []"
    by (auto simp: filter_empty_conv)
  have first: "Map_get (peopleIndex (applyStakeholderEntry x s)) e
           = Some (new_stakeholder_entry e (sh_importance x))"
    using absent reported(2) by (simp add: Map_get_after_stakeholder)
  have "Map_get (peopleIndex ?s1) e = None"
    using absent unparsed by (simp add: Map_get_fold_ingestion)
  with ne have whole: "Map_get (peopleIndex (applyOutputs now out s)) e
           = Some (new_stakeholder_entry e (sh_importance (last ?ys)))"
    by (cases ?ys) (simp_all add: applyOutputs_people people_steps_def Map_get_fold_stakeholders)
  from whole have "new_stakeholder_entry e (sh_importance (last ?ys))
        \<in> set (getPeople (applyOutputs now out s))"
    by (rule getPeople_member)
  with first whole show ?thesis by auto
qed

theorem stakeholder_creates_zero_count_entry_witness:
  "Map_get (peopleIndex initial_state) ''cfo@corp'' = None
   \<and> ''cfo@corp'' \<notin> set (concat (map participants (ingestionOutputs sample_outputs)))
   \<and> \<lparr>sh_email = ''cfo@corp'', sh_importance = ''high'', sh_reason = ''owner''\<rparr>
        \<in> set (stakeholders (stakeholder sample_outputs))
   \<and> Map_get (peopleIndex (applyOutputs ''t2'' sample_outputs initial_state)) ''cfo@corp''
        = Some \<lparr>pe_email = ''cfo@corp'', pe_name = None, inferredRole = Some ''high'',
                messageCount = 0, pe_topics = []\<rparr>
   \<and> \<lparr>pe_email = ''cfo@corp'', pe_name = None, inferredRole = Some ''high'',
       messageCount = 0, pe_topics = []\<rparr>
        \<in> set (getPeople (applyOutputs ''t2'' sample_outputs initial_state))"
proof -
  let ?x = "\<lparr>sh_email = ''cfo@corp'', sh_importance = ''high'', sh_reason = ''owner''\<rparr>"
  have absent: "Map_get (peopleIndex initial_state) ''cfo@corp'' = None"
    by (simp add: initial_state_def Map_get_def)
  have unparsed: "''cfo@corp'' \<notin> set (concat (map participants (ingestionOutputs sample_outputs)))"
    by (simp add: sample_outputs_def sample_records_def sample_parse_def participants_def)
  have reported: "?x \<in> set (stakeholders (stakeholder sample_outputs))"
    by (simp add: sample_outputs_def)
  have email: "sh_email ?x = ''cfo@corp''" by simp
  have only: "filter (\<lambda>y. sh_email y = ''cfo@corp'') (stakeholders (stakeholder sample_outputs)) = [?x]"
    by (simp add: sample_outputs_def)
  note inst = stakeholder_creates_zero_count_entry [OF absent unparsed reported email, of "''t2''"]
  from inst only
  have a: "Map_get (peopleIndex (applyOutputs ''t2'' sample_outputs initial_state)) ''cfo@corp''
      = Some (new_stakeholder_entry ''cfo@corp'' (sh_importance ?x))"
    by blast
  from inst only
  have b: "new_stakeholder_entry ''cfo@corp'' (sh_importance ?x)
      \<in> set (getPeople (applyOutputs ''t2'' sample_outputs initial_state))"
    by simp
  from absent unparsed reported a b show ?thesis
    by (simp add: new_stakeholder_entry_def)
qed

section \<open>Accounting of the loaded records\<close>

text \<open>
  Claim C1, as the code has it. In every run started from a state that is not running,
  at every configuration reached after loading: the queued count, the processed count,
  the size of the batch in flight and the number of records that belonged to failed
  batches add up to the number of records loaded. So \<open>queued + processed\<close> never
  exceeds the number loaded, and equals it whenever no batch is in flight and the error
  count is zero.
\<close>

theorem record_accounting:
  assumes "phase (status s0) \<noteq> Running"
  shows "queued (status (snd (exec bs evs (run_loaded bs t0 t1 recs s0))))
           + processed (status (snd (exec bs evs (run_loaded bs t0 t1 recs s0))))
           + in_flight_size (exec bs evs (run_loaded bs t0 t1 recs s0))
           + lost_records bs evs (run_loaded bs t0 t1 recs s0) = length recs
    \<and> queued (status (snd (exec bs evs (run_loaded bs t0 t1 recs s0))))
           + processed (status (snd (exec bs evs (run_loaded bs t0 t1 recs s0)))) \<le> length recs
    \<and> (fst (exec bs evs (run_loaded bs t0 t1 recs s0)) = None
         \<and> errors (status (snd (exec bs evs (run_loaded bs t0 t1 recs s0)))) = 0 \<longrightarrow>
        queued (status (snd (exec bs evs (run_loaded bs t0 t1 recs s0))))
           + processed (status (snd (exec bs evs (run_loaded bs t0 t1 recs s0)))) = length recs)"
proof -
  let ?c0 = "run_loaded bs t0 t1 recs s0"
  from assms have "accounted (length recs) 0 ?c0" by (rule accounted_loaded)
  then have "accounted (length recs) (0 + lost_records bs evs ?c0) (exec bs evs ?c0)"
    by (rule accounted_exec)
  then show ?thesis
    by (cases "fst (exec bs evs ?c0)") (auto simp: accounted_def in_flight_size_def)
qed

theorem record_accounting_witness:
  "phase (status initial_state) \<noteq> Running
   \<and> fst (exec 10 [Settled (sample_capabilities no_agents) ''t2''] loaded_example) = None
   \<and> errors (status (snd (exec 10 [Settled (sample_capabilities no_agents) ''t2'']
         loaded_example))) = 0
   \<and> queued (status (snd (exec 10 [Settled (sample_capabilities no_agents) ''t2'']
         loaded_example)))
      + processed (status (snd (exec 10 [Settled (sample_capabilities no_agents) ''t2'']
         loaded_example)))
      = length sample_records"
proof -
  let ?c = "exec 10 [Settled (sample_capabilities no_agents) ''t2''] loaded_example"
  have h: "phase (status initial_state) \<noteq> Running"
    by (simp add: initial_state_def initial_status_def)
  have a: "fst ?c = None"
    by (simp add: example_exec)
  have b: "errors (status (snd ?c)) = 0"
    unfolding example_exec
    by (simp add: runBatch_end_counts sample_pipeline_none loaded_example_eq
        initial_state_def initial_status_def)
  from record_accounting [OF h, of 10 "[Settled (sample_capabilities no_agents) ''t2'']"
      "''t0''" "''t1''" sample_records, folded loaded_example_def] a b
  have "queued (status (snd ?c)) + processed (status (snd ?c)) = length sample_records"
    by blast
  with h a b show ?thesis by blast
qed

text \<open>
  The equation of claim C1 itself fails while a batch is in flight, and stays false after
  a batch has failed: three records are loaded, the first batch takes all of them, and
  \<open>queued + processed\<close> is 0 both before the batch settles and after it fails.
\<close>

theorem queued_plus_processed_counterexample:
  "queued (status (snd loaded_example)) + processed (status (snd loaded_example))
     \<noteq> length sample_records
   \<and> queued (status (snd (exec 10 [Settled failing_capabilities ''t2''] loaded_example)))
       + processed (status (snd (exec 10 [Settled failing_capabilities ''t2''] loaded_example)))
     \<noteq> length sample_records"
  by (simp add: loaded_example_eq exec_def runBatch_end_fields runBatch_end_counts
      failing_pipeline initial_state_def initial_status_def sample_records_def)

section \<open>Message counts\<close>

text \<open>
  Claim C2, as the code has it. In every run started from a state that is not running,
  at every configuration reached after loading and for every identifier, the stored
  \<open>messageCount\<close> (zero when there is no entry) is the number of occurrences of the
  identifier as sender or recipient in the parsed messages of the batches that
  succeeded, the empty identifier never being counted. When no message names the
  identifier more than once, this is the number of messages that name it.
\<close>

theorem message_count_counts_occurrences:
  assumes "phase (status s0) \<noteq> Running"
  shows "stored_count (peopleIndex (snd (exec bs evs (run_loaded bs t0 t1 recs s0)))) e
           = occurrences e (parsed_messages bs evs (run_loaded bs t0 t1 recs s0))
    \<and> (\<forall>x. Map_get (peopleIndex (snd (exec bs evs (run_loaded bs t0 t1 recs s0)))) e = Some x
          \<longrightarrow> messageCount x = occurrences e (parsed_messages bs evs (run_loaded bs t0 t1 recs s0)))
    \<and> (e \<noteq> [] \<and> (\<forall>m \<in> set (parsed_messages bs evs (run_loaded bs t0 t1 recs s0)).
                      count_list (participants m) e \<le> 1)
          \<longrightarrow> stored_count (peopleIndex (snd (exec bs evs (run_loaded bs t0 t1 recs s0)))) e
                = spec_messageCount e (parsed_messages bs evs (run_loaded bs t0 t1 recs s0)))"
proof -
  let ?c0 = "run_loaded bs t0 t1 recs s0"
  have "stored_count (peopleIndex (snd ?c0)) e = 0"
    using peopleIndex_loaded [OF assms, of bs t0 t1 recs]
    by (simp add: stored_count_def Map_get_def)
  then have total: "stored_count (peopleIndex (snd (exec bs evs ?c0))) e
      = occurrences e (parsed_messages bs evs ?c0)"
    by (simp add: stored_count_exec)
  then have "\<forall>x. Map_get (peopleIndex (snd (exec bs evs ?c0))) e = Some x
      \<longrightarrow> messageCount x = occurrences e (parsed_messages bs evs ?c0)"
    by (auto simp: stored_count_def split: option.splits)
  with total show ?thesis
    by (auto simp: occurrences_once)
qed

theorem message_count_counts_occurrences_witness:
  "phase (status initial_state) \<noteq> Running
   \<and> Map_get (peopleIndex (snd (exec 10 [Settled (sample_capabilities no_agents) ''t2'']
        loaded_example))) ''a@corp''
      = Some \<lparr>pe_email = ''a@corp'', pe_name = None, inferredRole = None,
              messageCount = 2, pe_topics = []\<rparr>
   \<and> occurrences ''a@corp''
        (parsed_messages 10 [Settled (sample_capabilities no_agents) ''t2''] loaded_example) = 2
   \<and> spec_messageCount ''a@corp''
        (parsed_messages 10 [Settled (sample_capabilities no_agents) ''t2''] loaded_example) = 2"
proof -
  let ?evs = "[Settled (sample_capabilities no_agents) ''t2'']"
  let ?x = "\<lparr>pe_email = ''a@corp'', pe_name = None, inferredRole = None,
              messageCount = 2, pe_topics = []\<rparr>"
  have h: "phase (status initial_state) \<noteq> Running"
    by (simp add: initial_state_def initial_status_def)
  note inst = message_count_counts_occurrences [OF h, of 10 ?evs "''t0''" "''t1''"
      sample_records "''a@corp''", folded loaded_example_def]
  have stored: "Map_get (peopleIndex (snd (exec 10 ?evs loaded_example))) ''a@corp'' = Some ?x"
    unfolding example_people by (simp add: Map_get_def)
  have once: "''a@corp'' \<noteq> [] \<and>
      (\<forall>m \<in> set (parsed_messages 10 ?evs loaded_example).
         count_list (participants m) ''a@corp'' \<le> 1)"
    unfolding example_parsed
    by (simp add: sample_records_def sample_parse_def participants_def)
  from inst stored
  have a: "messageCount ?x = occurrences ''a@corp'' (parsed_messages 10 ?evs loaded_example)"
    by blast
  from inst once
  have b: "stored_count (peopleIndex (snd (exec 10 ?evs loaded_example))) ''a@corp''
      = spec_messageCount ''a@corp'' (parsed_messages 10 ?evs loaded_example)"
    by blast
  from stored
  have c: "stored_count (peopleIndex (snd (exec 10 ?evs loaded_example))) ''a@corp'' = 2"
    by (simp add: stored_count_def)
  from h stored a b c show ?thesis by simp
qed

text \<open>
  The count of claim C2 fails when a message names an identifier twice: of the three
  sample messages two name \<open>b@corp\<close>, one of them as sender and as recipient, and the
  stored count is 3.
\<close>

theorem message_count_counterexample:
  "Map_get (peopleIndex (snd (exec 10 [Settled (sample_capabilities no_agents) ''t2'']
       loaded_example))) ''b@corp''
     = Some \<lparr>pe_email = ''b@corp'', pe_name = None, inferredRole = None,
             messageCount = 3, pe_topics = []\<rparr>
   \<and> spec_messageCount ''b@corp''
        (parsed_messages 10 [Settled (sample_capabilities no_agents) ''t2''] loaded_example) = 2"
  unfolding example_people example_parsed
  by (simp add: Map_get_def spec_messageCount_def sample_records_def sample_parse_def)

section \<open>Failed batches\<close>



section \<open>Skipped stages\<close>



section \<open>Batches and their numbers\<close>

text \<open>
  Claim C8. A batch that begins takes the first \<open>batch_size\<close> records of the queue (all
  of them if there are fewer), leaves the rest queued, and is stamped with the count of
  successful batches plus one, which is at least 1; the default batch size is 10. When
  a batch settles the count becomes the batch's number if it succeeded and stays if it
  failed. Over a run the count of batches never decreases, a batch in flight always
  carries that count plus one, and a later batch never has a smaller number than an
  earlier one (after a failed batch the next one carries the same number). In
  a run over 23 records with batch size 10 whose capabilities never throw, the first
  batch has number 1 and the first ten records, the second number 2 and the next ten,
  the third number 3 and the last three; after the third settles, \<open>processed\<close> is 23,
  \<open>batches\<close> is 3, \<open>errors\<close> is 0, the queue is empty, the phase is completed and the
  timer is cancelled.
\<close>

theorem batches_pop_front_in_sequence:
  assumes idle: "phase (status s0) \<noteq> Running" "\<not> batchInProgress s0"
    and n: "length recs = 23"
    and rel: "reliable cap1" "reliable cap2" "reliable cap3"
  shows "(\<forall>s now fl s'. runBatch_begin bs now s = (Some fl, s') \<longrightarrow>
            batch fl = take bs (queue s) \<and> queue s' = drop bs (queue s)
            \<and> batch fl @ queue s' = queue s \<and> length (batch fl) \<le> bs
            \<and> batchNumber fl = batches (status s) + 1 \<and> 1 \<le> batchNumber fl)
    \<and> BATCH_SIZE None = 10
    \<and> (\<forall>cap now fl s. batches (status (runBatch_end cap now fl s)) =
           (if isl (run_pipeline cap (batchNumber fl) (batch fl) s) then batches (status s)
            else batchNumber fl))
    \<and> (\<forall>f. fst (exec bs evs (run_loaded bs t0 t1 rs s0)) = Some f \<longrightarrow>
           batchNumber f = batches (status (snd (exec bs evs (run_loaded bs t0 t1 rs s0)))) + 1)
    \<and> batches (status (snd (exec bs evs (run_loaded bs t0 t1 rs s0))))
         \<le> batches (status (snd (exec bs (evs @ evs') (run_loaded bs t0 t1 rs s0))))
    \<and> (\<forall>f f'. fst (exec bs evs (run_loaded bs t0 t1 rs s0)) = Some f
           \<and> fst (exec bs (evs @ evs') (run_loaded bs t0 t1 rs s0)) = Some f' \<longrightarrow>
           batchNumber f \<le> batchNumber f')
    \<and> progress (run_loaded 10 t0 t1 recs s0)
         = (Some (1, take 10 recs), drop 10 recs, Running, 13, 0, 0, 0, True, True)
    \<and> progress (exec 10 [Settled cap1 t2, Tick t3] (run_loaded 10 t0 t1 recs s0))
         = (Some (2, take 10 (drop 10 recs)), drop 20 recs, Running, 3, 10, 1, 0, True, True)
    \<and> progress (exec 10 [Settled cap1 t2, Tick t3, Settled cap2 t4, Tick t5]
                   (run_loaded 10 t0 t1 recs s0))
         = (Some (3, drop 20 recs), [], Running, 0, 20, 2, 0, True, True)
    \<and> progress (exec 10 [Settled cap1 t2, Tick t3, Settled cap2 t4, Tick t5, Settled cap3 t6]
                   (run_loaded 10 t0 t1 recs s0))
         = (None, [], Completed, 0, 23, 3, 0, False, False)
    \<and> length (take 10 recs) = 10 \<and> length (take 10 (drop 10 recs)) = 10
    \<and> length (drop 20 recs) = 3"
proof -
  let ?c0 = "run_loaded bs t0 t1 rs s0"
  let ?d0 = "run_loaded 10 t0 t1 recs s0"
  have pops: "\<forall>s now fl s'. runBatch_begin bs now s = (Some fl, s') \<longrightarrow>
            batch fl = take bs (queue s) \<and> queue s' = drop bs (queue s)
            \<and> batch fl @ queue s' = queue s \<and> length (batch fl) \<le> bs
            \<and> batchNumber fl = batches (status s) + 1 \<and> 1 \<le> batchNumber fl"
    by (intro allI impI conjI; erule begin_pops_front)
  have dflt: "BATCH_SIZE None = 10"
    by (simp add: BATCH_SIZE_def env_number_def)
  have settle: "\<forall>cap now fl s. batches (status (runBatch_end cap now fl s)) =
           (if isl (run_pipeline cap (batchNumber fl) (batch fl) s) then batches (status s)
            else batchNumber fl)"
    by (simp add: runBatch_end_counts)
  from idle(1) have st0: "stamped ?c0" by (rule stamped_loaded)
  from stamped_exec [OF st0, of bs evs]
  have st1: "stamped (exec bs evs ?c0)" by simp
  then have stamp: "\<forall>f. fst (exec bs evs ?c0) = Some f \<longrightarrow>
      batchNumber f = batches (status (snd (exec bs evs ?c0))) + 1"
    by (auto simp: stamped_def split: option.splits)
  from stamped_exec [OF st1, of bs evs']
  have st2: "stamped (exec bs (evs @ evs') ?c0)"
    and mono: "batches (status (snd (exec bs evs ?c0)))
        \<le> batches (status (snd (exec bs (evs @ evs') ?c0)))"
    by (simp_all add: exec_append)
  from st2 have stamp': "\<forall>f'. fst (exec bs (evs @ evs') ?c0) = Some f' \<longrightarrow>
      batchNumber f' = batches (status (snd (exec bs (evs @ evs') ?c0))) + 1"
    by (auto simp: stamped_def split: option.splits)
  from stamp stamp' mono
  have order: "\<forall>f f'. fst (exec bs evs ?c0) = Some f
           \<and> fst (exec bs (evs @ evs') ?c0) = Some f' \<longrightarrow> batchNumber f \<le> batchNumber f'"
    by auto
  from n have ne: "recs \<noteq> []" by auto
  from n have lens: "length (drop 10 recs) = 13" "length (take 10 recs) = 10"
      "length (take 10 (drop 10 recs)) = 10" "length (drop 20 recs) = 3"
      "drop 10 recs \<noteq> []" "drop 20 recs \<noteq> []" "take 10 (drop 20 recs) = drop 20 recs"
      "drop 10 (drop 20 recs) = []"
    by auto
  have p0: "progress ?d0
      = (Some (1, take 10 recs), drop 10 recs, Running, 13, 0, 0, 0, True, True)"
    using progress_loaded [OF idle ne, of 10 t0 t1] by (simp add: lens n)
  have p1: "progress (step 10 (Settled cap1 t2) ?d0)
      = (None, drop 10 recs, Running, 13, 10, 1, 0, True, False)"
    using progress_settled [OF p0 rel(1), of 10 t2] by (simp add: lens n)
  have p2: "progress (step 10 (Tick t3) (step 10 (Settled cap1 t2) ?d0))
      = (Some (2, take 10 (drop 10 recs)), drop 20 recs, Running, 3, 10, 1, 0, True, True)"
    using progress_tick [OF p1 lens(5), of 10 t3] by (simp add: lens n)
  have p3: "progress (step 10 (Settled cap2 t4) (step 10 (Tick t3) (step 10 (Settled cap1 t2) ?d0)))
      = (None, drop 20 recs, Running, 3, 20, 2, 0, True, False)"
    using progress_settled [OF p2 rel(2), of 10 t4] by (simp add: lens n)
  have p4: "progress (step 10 (Tick t5) (step 10 (Settled cap2 t4)
        (step 10 (Tick t3) (step 10 (Settled cap1 t2) ?d0))))
      = (Some (3, drop 20 recs), [], Running, 0, 20, 2, 0, True, True)"
    using progress_tick [OF p3 lens(6), of 10 t5] by (simp add: lens n)
  have p5: "progress (step 10 (Settled cap3 t6) (step 10 (Tick t5) (step 10 (Settled cap2 t4)
        (step 10 (Tick t3) (step 10 (Settled cap1 t2) ?d0)))))
      = (None, [], Completed, 0, 23, 3, 0, False, False)"
    using progress_settled [OF p4 rel(3), of 10 t6] by (simp add: lens n)
  from p2 have q2: "progress (exec 10 [Settled cap1 t2, Tick t3] ?d0)
      = (Some (2, take 10 (drop 10 recs)), drop 20 recs, Running, 3, 10, 1, 0, True, True)"
    by (simp only: exec_Cons exec_Nil)
  from p4 have q4: "progress (exec 10 [Settled cap1 t2, Tick t3, Settled cap2 t4, Tick t5] ?d0)
      = (Some (3, drop 20 recs), [], Running, 0, 20, 2, 0, True, True)"
    by (simp only: exec_Cons exec_Nil)
  from p5 have q5: "progress (exec 10 [Settled cap1 t2, Tick t3, Settled cap2 t4, Tick t5,
        Settled cap3 t6] ?d0)
      = (None, [], Completed, 0, 23, 3, 0, False, False)"
    by (simp only: exec_Cons exec_Nil)
  from pops dflt settle stamp mono order p0 q2 q4 q5 lens(2,3,4) show ?thesis
    by (intro conjI)
qed

theorem batches_pop_front_in_sequence_witness:
  "phase (status initial_state) \<noteq> Running \<and> \<not> batchInProgress initial_state
   \<and> length many_records = 23
   \<and> reliable (sample_capabilities all_agents)
   \<and> runBatch_begin 2 ''t1'' running_example =
       (Some \<lparr>batchNumber = 1, batch = take 2 sample_records, batchTimestamp = ''t1''\<rparr>,
        snd (runBatch_begin 2 ''t1'' running_example))
   \<and> take 2 sample_records = take 2 (queue running_example)
   \<and> fst (exec 2 [] (run_loaded 2 ''t0'' ''t1'' sample_records initial_state))
       = Some \<lparr>batchNumber = 1, batch = take 2 sample_records, batchTimestamp = ''t1''\<rparr>
   \<and> batches (status (snd (exec 2 [] (run_loaded 2 ''t0'' ''t1'' sample_records initial_state))))
       = 0
   \<and> progress (exec 10
        [Settled (sample_capabilities all_agents) ''t2'', Tick ''t3'',
         Settled (sample_capabilities all_agents) ''t4'', Tick ''t5'',
         Settled (sample_capabilities all_agents) ''t6'']
        (run_loaded 10 ''t0'' ''t1'' many_records initial_state))
      = (None, [], Completed, 0, 23, 3, 0, False, False)"
proof -
  let ?cap = "sample_capabilities all_agents"
  let ?fl = "\<lparr>batchNumber = 1, batch = take 2 sample_records, batchTimestamp = ''t1''\<rparr>"
  have idle: "phase (status initial_state) \<noteq> Running" "\<not> batchInProgress initial_state"
    by (simp_all add: initial_state_def initial_status_def)
  have n: "length many_records = 23" by (simp add: many_records_def)
  have rel: "reliable ?cap" by (rule reliable_sample)
  note inst = batches_pop_front_in_sequence [OF idle n rel rel rel,
      where bs = 2 and evs = "[]" and evs' = "[]" and ?t0.0 = "''t0''" and ?t1.0 = "''t1''"
        and rs = sample_records and ?t2.0 = "''t2''" and ?t3.0 = "''t3''" and ?t4.0 = "''t4''"
        and ?t5.0 = "''t5''" and ?t6.0 = "''t6''"]
  have flight: "fst (exec 2 [] (run_loaded 2 ''t0'' ''t1'' sample_records initial_state)) = Some ?fl"
    by (simp add: exec_Nil loaded_two)
  from inst running_example_begin
  have a: "batch ?fl = take 2 (queue running_example)" by blast
  from inst flight
  have "batchNumber ?fl
      = batches (status (snd (exec 2 [] (run_loaded 2 ''t0'' ''t1'' sample_records initial_state)))) + 1"
    by blast
  then have b: "batches (status (snd (exec 2 []
      (run_loaded 2 ''t0'' ''t1'' sample_records initial_state)))) = 0"
    by simp
  from inst have c: "progress (exec 10
        [Settled ?cap ''t2'', Tick ''t3'', Settled ?cap ''t4'', Tick ''t5'', Settled ?cap ''t6'']
        (run_loaded 10 ''t0'' ''t1'' many_records initial_state))
      = (None, [], Completed, 0, 23, 3, 0, False, False)"
    by blast
  from idle n rel running_example_begin a flight b c show ?thesis by simp
qed

end
